theory Spec2Isabelle
  imports Main "HOL-Library.Multiset" "HOL-Library.Sublist"
begin

section \<open>Python values and built-ins used by \<open>seller.py\<close> and \<open>market.py\<close>\<close>

text \<open>
  A Python \<open>str\<close> is modelled as a \<open>string\<close>. A character beyond ASCII is written as
  its UTF-8 bytes; every such byte is at least \<open>0x80\<close>, so it is neither \<open>"."\<close> nor one of
  \<open>0-9\<close>, and equality of strings is equality of their encodings. The code never takes
  the length of a string.

  The exceptions the modelled code can raise.
\<close>

datatype error = ValueError | TypeError | AttributeError | IndexError | RequestError

text \<open>
  A cell of the spreadsheet as \<open>watch.get(...)\<close> returns it: a string, an integer, or
  \<open>None\<close> when the column is missing. (Floating-point cells are outside the model.)
\<close>

datatype pyval = PStr string | PInt int | PNone

definition is_digit :: "char \<Rightarrow> bool" where
  "is_digit c = (48 \<le> (of_char c :: nat) \<and> (of_char c :: nat) \<le> 57)"

definition digit_val :: "char \<Rightarrow> nat" where
  "digit_val c = (of_char c :: nat) - 48"

definition digit_char :: "nat \<Rightarrow> char" where
  "digit_char d = char_of (48 + d)"

text \<open>\<open>str(n)\<close> for an integer: the decimal numeral, with a leading minus sign.\<close>

fun str_nat :: "nat \<Rightarrow> string" where
  "str_nat n = (if n < 10 then [digit_char n] else str_nat (n div 10) @ [digit_char (n mod 10)])"

declare str_nat.simps [simp del]

definition str_int :: "int \<Rightarrow> string" where
  "str_int i = (if i < 0 then CHR ''-'' # str_nat (nat (- i)) else str_nat (nat i))"

fun py_str :: "pyval \<Rightarrow> string" where
  "py_str (PStr s) = s"
| "py_str (PInt i) = str_int i"
| "py_str PNone = ''None''"

text \<open>
  \<open>int(s)\<close> for a string. The interpreter first brings the string into ASCII, character
  by character: a character below 127 stays, white space beyond ASCII becomes a blank, a
  decimal digit of any script becomes the ASCII digit of its value, and any other
  character makes the whole conversion fail. On the ASCII form, surrounding white space
  is dropped, one sign is allowed, then decimal digits follow in which single underscores
  may separate digits. Anything else raises \<open>ValueError\<close>.

  The two tables are those of the interpreter's character database (Unicode 14): the
  white space beyond ASCII, and the code point of the digit zero of every script, whose
  digits are the ten code points from there. The interpreter's limit on the number of
  digits (4300 unless set otherwise, beyond which it raises \<open>ValueError\<close>) is a setting of
  the interpreter and is not part of the model.
\<close>

definition unicode_spaces :: "nat list" where
  "unicode_spaces =
     [0x85, 0xA0, 0x1680, 0x2000, 0x2001, 0x2002, 0x2003, 0x2004, 0x2005, 0x2006, 0x2007,
      0x2008, 0x2009, 0x200A, 0x2028, 0x2029, 0x202F, 0x205F, 0x3000]"

definition decimal_zeros :: "nat list" where
  "decimal_zeros =
     [0x660, 0x6F0, 0x7C0, 0x966, 0x9E6, 0xA66, 0xAE6, 0xB66, 0xBE6, 0xC66, 0xCE6, 0xD66,
      0xDE6, 0xE50, 0xED0, 0xF20, 0x1040, 0x1090, 0x17E0, 0x1810, 0x1946, 0x19D0, 0x1A80,
      0x1A90, 0x1B50, 0x1BB0, 0x1C40, 0x1C50, 0xA620, 0xA8D0, 0xA900, 0xA9D0, 0xA9F0,
      0xAA50, 0xABF0, 0xFF10, 0x104A0, 0x10D30, 0x11066, 0x110F0, 0x11136, 0x111D0,
      0x112F0, 0x11450, 0x114D0, 0x11650, 0x116C0, 0x11730, 0x118E0, 0x11950, 0x11C50,
      0x11D50, 0x11DA0, 0x16A60, 0x16AC0, 0x16B50, 0x1D7CE, 0x1D7D8, 0x1D7E2, 0x1D7EC,
      0x1D7F6, 0x1E140, 0x1E2F0, 0x1E950, 0x1FBF0]"

definition unicode_decimal :: "nat \<Rightarrow> nat option" where
  "unicode_decimal cp =
     (case filter (\<lambda>z. z \<le> cp \<and> cp < z + 10) decimal_zeros of
        [] \<Rightarrow> None
      | z # _ \<Rightarrow> Some (cp - z))"

definition to_ascii :: "nat \<Rightarrow> char option" where
  "to_ascii cp =
     (if cp \<in> set unicode_spaces then Some CHR '' ''
      else map_option digit_char (unicode_decimal cp))"

text \<open>The code point that starts a string in UTF-8, with the rest of the string.\<close>

definition is_cont :: "char \<Rightarrow> bool" where
  "is_cont c = (128 \<le> (of_char c :: nat) \<and> (of_char c :: nat) < 192)"

definition cont_bits :: "char \<Rightarrow> nat" where
  "cont_bits c = (of_char c :: nat) - 128"

definition code_point :: "string \<Rightarrow> (nat \<times> string) option" where
  "code_point s =
     (case s of
        [] \<Rightarrow> None
      | c0 # r0 \<Rightarrow>
          if 192 \<le> (of_char c0 :: nat) \<and> (of_char c0 :: nat) < 224 then
            (case r0 of
               c1 # r1 \<Rightarrow>
                 if is_cont c1 then Some (((of_char c0 :: nat) - 192) * 64 + cont_bits c1, r1)
                 else None
             | _ \<Rightarrow> None)
          else if 224 \<le> (of_char c0 :: nat) \<and> (of_char c0 :: nat) < 240 then
            (case r0 of
               c1 # c2 # r2 \<Rightarrow>
                 if is_cont c1 \<and> is_cont c2
                 then Some ((((of_char c0 :: nat) - 224) * 64 + cont_bits c1) * 64 + cont_bits c2, r2)
                 else None
             | _ \<Rightarrow> None)
          else if 240 \<le> (of_char c0 :: nat) \<and> (of_char c0 :: nat) < 248 then
            (case r0 of
               c1 # c2 # c3 # r3 \<Rightarrow>
                 if is_cont c1 \<and> is_cont c2 \<and> is_cont c3
                 then Some (((((of_char c0 :: nat) - 240) * 64 + cont_bits c1) * 64 + cont_bits c2) * 64
                              + cont_bits c3, r3)
                 else None
             | _ \<Rightarrow> None)
          else None)"

function ascii_form :: "string \<Rightarrow> string option" where
  "ascii_form [] = Some []"
| "ascii_form (c # cs) =
     (if (of_char c :: nat) < 127 then map_option ((#) c) (ascii_form cs)
      else (case code_point (c # cs) of
              None \<Rightarrow> None
            | Some (cp, rest) \<Rightarrow>
                (case to_ascii cp of
                   None \<Rightarrow> None
                 | Some a \<Rightarrow> map_option ((#) a) (ascii_form rest))))"
  by pat_completeness auto
termination
  by (relation "measure length") (auto simp: code_point_def split: list.splits if_splits)

definition is_space :: "char \<Rightarrow> bool" where
  "is_space c = ((of_char c :: nat) = 32 \<or> (9 \<le> (of_char c :: nat) \<and> (of_char c :: nat) \<le> 13))"

definition strip :: "string \<Rightarrow> string" where
  "strip s = rev (dropWhile is_space (rev (dropWhile is_space s)))"

fun digits_val :: "nat \<Rightarrow> string \<Rightarrow> nat option" where
  "digits_val acc [] = Some acc"
| "digits_val acc [c] = (if is_digit c then Some (acc * 10 + digit_val c) else None)"
| "digits_val acc (c # d # ds) =
     (if is_digit c then digits_val (acc * 10 + digit_val c) (d # ds)
      else if c = CHR ''_'' \<and> is_digit d then digits_val (acc * 10 + digit_val d) ds
      else None)"

definition parse_nat :: "string \<Rightarrow> nat option" where
  "parse_nat s = (case s of [] \<Rightarrow> None
                  | c # cs \<Rightarrow> if is_digit c then digits_val (digit_val c) cs else None)"

definition int_of_ascii :: "string \<Rightarrow> int option" where
  "int_of_ascii s =
     (case strip s of [] \<Rightarrow> None
      | c # cs \<Rightarrow>
          if c = CHR ''-'' then map_option (\<lambda>n. - int n) (parse_nat cs)
          else if c = CHR ''+'' then map_option int (parse_nat cs)
          else map_option int (parse_nat (c # cs)))"

definition int_of_str :: "string \<Rightarrow> int option" where
  "int_of_str s = (case ascii_form s of None \<Rightarrow> None | Some t \<Rightarrow> int_of_ascii t)"

fun py_int :: "pyval \<Rightarrow> error + int" where
  "py_int (PStr s) = (case int_of_str s of None \<Rightarrow> Inl ValueError | Some i \<Rightarrow> Inr i)"
| "py_int (PInt i) = Inr i"
| "py_int PNone = Inl TypeError"

text \<open>\<open>s.split(sep)\<close> for a separator of one character: never an empty list.\<close>

fun split :: "string \<Rightarrow> char \<Rightarrow> string list" where
  "split [] sep = [[]]"
| "split (c # cs) sep =
     (if c = sep then [] # split cs sep
      else (case split cs sep of [] \<Rightarrow> [[c]] | p # ps \<Rightarrow> (c # p) # ps))"

text \<open>\<open>xs[0]\<close>: raises \<open>IndexError\<close> on the empty list.\<close>

definition index0 :: "'a list \<Rightarrow> error + 'a" where
  "index0 xs = (case xs of [] \<Rightarrow> Inl IndexError | x # _ \<Rightarrow> Inr x)"

text \<open>\<open>re.sub("[^0-9]", "", s)\<close>: every character outside \<open>0-9\<close> is deleted.\<close>

definition re_sub_non_digits :: "string \<Rightarrow> string" where
  "re_sub_non_digits s = filter is_digit s"

text \<open>
  \<open>range(start, stop, step)\<close> as a list; a zero step raises \<open>ValueError\<close>. The number
  of elements is computed as the interpreter does.
\<close>

definition range_len :: "int \<Rightarrow> int \<Rightarrow> int \<Rightarrow> nat" where
  "range_len start stop step =
     (if 0 < step \<and> start < stop then nat ((stop - start - 1) div step + 1)
      else if step < 0 \<and> stop < start then nat ((start - stop - 1) div (- step) + 1)
      else 0)"

definition py_range :: "int \<Rightarrow> int \<Rightarrow> int \<Rightarrow> error + int list" where
  "py_range start stop step =
     (if step = 0 then Inl ValueError
      else Inr (map (\<lambda>k. start + int k * step) [0..<range_len start stop step]))"

text \<open>\<open>lst[i:j]\<close>: negative bounds count from the end, all bounds are clamped.\<close>

definition slice_bound :: "nat \<Rightarrow> int \<Rightarrow> nat" where
  "slice_bound len k = (if k < 0 then nat (max (k + int len) 0) else min (nat k) len)"

definition py_slice :: "'a list \<Rightarrow> int \<Rightarrow> int \<Rightarrow> 'a list" where
  "py_slice lst i j =
     take (slice_bound (length lst) j - slice_bound (length lst) i)
          (drop (slice_bound (length lst) i) lst)"

section \<open>\<open>seller.py\<close>: pure helpers\<close>

text \<open>
  \<open>price_conversion(price)\<close>: \<open>re.sub("[^0-9]", "", price.split(".")[0])\<close>. A value
  that is not a string has no \<open>split\<close>.
\<close>

fun price_conversion :: "pyval \<Rightarrow> error + string" where
  "price_conversion (PStr price) =
     (case index0 (split price CHR ''.'') of Inl e \<Rightarrow> Inl e
      | Inr head \<Rightarrow> Inr (re_sub_non_digits head))"
| "price_conversion _ = Inl AttributeError"

text \<open>
  \<open>divide(lst, n)\<close>: the generator \<open>for i in range(0, len(lst), n): yield lst[i: i + n]\<close>,
  as the list of everything it yields (every caller wraps it in \<open>list(...)\<close>); the
  \<open>ValueError\<close> of \<open>range\<close> surfaces when the generator is first advanced.
\<close>

definition divide :: "'a list \<Rightarrow> int \<Rightarrow> error + 'a list list" where
  "divide lst n =
     (case py_range 0 (int (length lst)) n of Inl e \<Rightarrow> Inl e
      | Inr idxs \<Rightarrow> Inr (map (\<lambda>i. py_slice lst i (i + n)) idxs))"

section \<open>Data of the reconciliation\<close>

text \<open>
  One row of the vendor spreadsheet, a dict read with \<open>watch.get\<close>: the columns for
  the product code, the quantity and the price. Their Cyrillic labels are transliterated
  in the field names \<open>Kod\<close>, \<open>Kolichestvo\<close> and \<open>Tsena\<close>. A missing column reads as
  \<open>PNone\<close>.
\<close>

record watch =
  Kod :: pyval
  Kolichestvo :: pyval
  Tsena :: pyval

text \<open>The dicts \<open>seller.py\<close> builds: \<open>{"offer_id": ..., "stock": ...}\<close> and the price dict
  (whose key \<open>"offer_id"\<close> is the field \<open>price_offer_id\<close> here).\<close>

record seller_stock =
  offer_id :: string
  stock :: int

record seller_price =
  auto_action_enabled :: string
  currency_code :: string
  price_offer_id :: string
  old_price :: string
  price :: string

text \<open>The dicts \<open>market.py\<close> builds. The keys \<open>"count"\<close>, \<open>"type"\<close>, \<open>"id"\<close>, \<open>"value"\<close> and
  the nested \<open>"price"\<close> are the fields \<open>item_count\<close>, \<open>item_type\<close>, \<open>price_id\<close>,
  \<open>price_value\<close> and \<open>price_dict\<close>.\<close>

record stock_item =
  item_count :: int
  item_type :: string
  updatedAt :: string

record market_stock =
  sku :: string
  warehouseId :: string
  items :: "stock_item list"

record market_price_dict =
  price_value :: int
  currencyId :: string

record market_price =
  price_id :: string
  price_dict :: market_price_dict

text \<open>What the listing endpoints answer: for \<open>seller.py\<close> the \<open>"result"\<close> with \<open>"items"\<close>
  (here \<open>page_items\<close>), \<open>"total"\<close> and \<open>"last_id"\<close>; for \<open>market.py\<close> the
  \<open>"offerMappingEntries"\<close> and \<open>paging.nextPageToken\<close>, \<open>None\<close> when the key is absent.\<close>

record product =
  product_id :: int
  product_offer_id :: string

record seller_page =
  page_items :: "product list"
  total :: int
  last_id :: string

record market_entry =
  shopSku :: string

record market_page =
  offerMappingEntries :: "market_entry list"
  nextPageToken :: "string option"

section \<open>Quantity normalisation\<close>

text \<open>
  The block both \<open>create_stocks\<close> functions share (\<open>seller.py\<close> lines 184-190,
  \<open>market.py\<close> lines 170-176):
  \<^verbatim>\<open>count = str(watch.get(Kolichestvo))
if count == ">10": stock = 100
elif count == "1": stock = 0
else: stock = int(watch.get(Kolichestvo))\<close>
\<close>

definition normalize_quantity :: "pyval \<Rightarrow> error + int" where
  "normalize_quantity quantity =
     (let count = py_str quantity in
      if count = ''>10'' then Inr 100
      else if count = ''1'' then Inr 0
      else py_int quantity)"

section \<open>\<open>seller.py\<close>: \<open>create_stocks\<close> and \<open>create_prices\<close>\<close>

text \<open>
  The first loop of \<open>create_stocks\<close>, over \<open>watch_remnants\<close>, with the two lists it
  changes: \<open>stocks\<close> (appended to) and the caller's \<open>offer_ids\<close> (\<open>remove\<close> deletes the
  first occurrence; the membership test just before it guarantees there is one).
  An exception of \<open>int\<close> ends the call.
\<close>

fun seller_create_stocks_loop ::
  "watch list \<Rightarrow> seller_stock list \<Rightarrow> string list \<Rightarrow> error + (seller_stock list \<times> string list)" where
  "seller_create_stocks_loop [] stocks offer_ids = Inr (stocks, offer_ids)"
| "seller_create_stocks_loop (watch # rest) stocks offer_ids =
     (if py_str (Kod watch) \<in> set offer_ids then
        (case normalize_quantity (Kolichestvo watch) of
           Inl e \<Rightarrow> Inl e
         | Inr n \<Rightarrow>
             seller_create_stocks_loop rest
               (stocks @ [\<lparr>offer_id = py_str (Kod watch), stock = n\<rparr>])
               (remove1 (py_str (Kod watch)) offer_ids))
      else seller_create_stocks_loop rest stocks offer_ids)"

text \<open>
  \<open>create_stocks(watch_remnants, offer_ids)\<close>: the first loop, then one zero-stock
  dict for each id left in \<open>offer_ids\<close>. The result is the returned list together
  with the caller's \<open>offer_ids\<close> list as the call leaves it.
\<close>

definition seller_create_stocks ::
  "watch list \<Rightarrow> string list \<Rightarrow> error + (seller_stock list \<times> string list)" where
  "seller_create_stocks watch_remnants offer_ids =
     (case seller_create_stocks_loop watch_remnants [] offer_ids of
        Inl e \<Rightarrow> Inl e
      | Inr (stocks, offer_ids') \<Rightarrow>
          Inr (stocks @ map (\<lambda>oid. \<lparr>offer_id = oid, stock = 0\<rparr>) offer_ids', offer_ids'))"

text \<open>\<open>create_prices(watch_remnants, offer_ids)\<close>, again with the \<open>offer_ids\<close> list as the
  call leaves it.\<close>

fun seller_create_prices_loop ::
  "watch list \<Rightarrow> seller_price list \<Rightarrow> string list \<Rightarrow> error + (seller_price list \<times> string list)" where
  "seller_create_prices_loop [] prices offer_ids = Inr (prices, offer_ids)"
| "seller_create_prices_loop (watch # rest) prices offer_ids =
     (if py_str (Kod watch) \<in> set offer_ids then
        (case price_conversion (Tsena watch) of
           Inl e \<Rightarrow> Inl e
         | Inr p \<Rightarrow>
             seller_create_prices_loop rest
               (prices @ [\<lparr>auto_action_enabled = ''UNKNOWN'', currency_code = ''RUB'',
                            price_offer_id = py_str (Kod watch), old_price = ''0'', price = p\<rparr>])
               offer_ids)
      else seller_create_prices_loop rest prices offer_ids)"

definition seller_create_prices ::
  "watch list \<Rightarrow> string list \<Rightarrow> error + (seller_price list \<times> string list)" where
  "seller_create_prices watch_remnants offer_ids = seller_create_prices_loop watch_remnants [] offer_ids"

section \<open>\<open>market.py\<close>: \<open>create_stocks\<close> and \<open>create_prices\<close>\<close>

text \<open>
  \<open>create_stocks(watch_remnants, offer_ids, warehouse_id)\<close>. The string \<open>date\<close> is what
  the call reads from the clock (\<open>datetime.utcnow()\<close> cut to the second, ISO format and
  \<open>"Z"\<close>), once, before the loops; it is an argument of the model.
\<close>

definition market_stock_dict :: "string \<Rightarrow> string \<Rightarrow> string \<Rightarrow> int \<Rightarrow> market_stock" where
  "market_stock_dict date warehouse_id code n =
     \<lparr>sku = code, warehouseId = warehouse_id,
      items = [\<lparr>item_count = n, item_type = ''FIT'', updatedAt = date\<rparr>]\<rparr>"

fun market_create_stocks_loop ::
  "string \<Rightarrow> string \<Rightarrow> watch list \<Rightarrow> market_stock list \<Rightarrow> string list
     \<Rightarrow> error + (market_stock list \<times> string list)" where
  "market_create_stocks_loop date warehouse_id [] stocks offer_ids = Inr (stocks, offer_ids)"
| "market_create_stocks_loop date warehouse_id (watch # rest) stocks offer_ids =
     (if py_str (Kod watch) \<in> set offer_ids then
        (case normalize_quantity (Kolichestvo watch) of
           Inl e \<Rightarrow> Inl e
         | Inr n \<Rightarrow>
             market_create_stocks_loop date warehouse_id rest
               (stocks @ [market_stock_dict date warehouse_id (py_str (Kod watch)) n])
               (remove1 (py_str (Kod watch)) offer_ids))
      else market_create_stocks_loop date warehouse_id rest stocks offer_ids)"

definition market_create_stocks ::
  "string \<Rightarrow> watch list \<Rightarrow> string list \<Rightarrow> string \<Rightarrow> error + (market_stock list \<times> string list)" where
  "market_create_stocks date watch_remnants offer_ids warehouse_id =
     (case market_create_stocks_loop date warehouse_id watch_remnants [] offer_ids of
        Inl e \<Rightarrow> Inl e
      | Inr (stocks, offer_ids') \<Rightarrow>
          Inr (stocks @ map (\<lambda>oid. market_stock_dict date warehouse_id oid 0) offer_ids', offer_ids'))"

text \<open>\<open>create_prices\<close> of \<open>market.py\<close>: the price is \<open>int(price_conversion(...))\<close>.\<close>

fun market_create_prices_loop ::
  "watch list \<Rightarrow> market_price list \<Rightarrow> string list \<Rightarrow> error + (market_price list \<times> string list)" where
  "market_create_prices_loop [] prices offer_ids = Inr (prices, offer_ids)"
| "market_create_prices_loop (watch # rest) prices offer_ids =
     (if py_str (Kod watch) \<in> set offer_ids then
        (case price_conversion (Tsena watch) of
           Inl e \<Rightarrow> Inl e
         | Inr p \<Rightarrow>
             (case py_int (PStr p) of
                Inl e \<Rightarrow> Inl e
              | Inr v \<Rightarrow>
                  market_create_prices_loop rest
                    (prices @ [\<lparr>price_id = py_str (Kod watch),
                                 price_dict = \<lparr>price_value = v, currencyId = ''RUR''\<rparr>\<rparr>])
                    offer_ids))
      else market_create_prices_loop rest prices offer_ids)"

definition market_create_prices ::
  "watch list \<Rightarrow> string list \<Rightarrow> error + (market_price list \<times> string list)" where
  "market_create_prices watch_remnants offer_ids = market_create_prices_loop watch_remnants [] offer_ids"

section \<open>Offer listing: \<open>get_offer_ids\<close>\<close>

text \<open>
  \<open>get_product_list\<close> is a network call. The platform is a parameter of the model:
  \<open>srv k token\<close> is what the \<open>k\<close>-th request of a listing, sent with \<open>token\<close>, answers:
  a page, or the exception that \<open>raise_for_status\<close> or the transport raises.

  The \<open>while True\<close> loop of \<open>get_offer_ids\<close> in \<open>seller.py\<close>, with the request counter,
  \<open>last_id\<close> and \<open>product_list\<close>. The result \<open>None\<close> stands for a loop that never ends.
\<close>

partial_function (option) seller_get_pages ::
  "(nat \<Rightarrow> string \<Rightarrow> error + seller_page) \<Rightarrow> nat \<Rightarrow> string \<Rightarrow> product list
     \<Rightarrow> (error + product list) option" where
  "seller_get_pages srv k last_id' product_list =
     (case srv k last_id' of
        Inl e \<Rightarrow> Some (Inl e)
      | Inr some_prod \<Rightarrow>
          (if total some_prod = int (length (product_list @ page_items some_prod))
           then Some (Inr (product_list @ page_items some_prod))
           else seller_get_pages srv (Suc k) (last_id some_prod)
                  (product_list @ page_items some_prod)))"

definition seller_get_offer_ids ::
  "(nat \<Rightarrow> string \<Rightarrow> error + seller_page) \<Rightarrow> (error + string list) option" where
  "seller_get_offer_ids srv =
     (case seller_get_pages srv 0 [] [] of
        None \<Rightarrow> None
      | Some (Inl e) \<Rightarrow> Some (Inl e)
      | Some (Inr product_list) \<Rightarrow> Some (Inr (map product_offer_id product_list)))"

text \<open>
  The loop of \<open>get_offer_ids\<close> in \<open>market.py\<close>: \<open>if not page: break\<close> leaves on a token
  that is absent or the empty string.
\<close>

partial_function (option) market_get_pages ::
  "(nat \<Rightarrow> string \<Rightarrow> error + market_page) \<Rightarrow> nat \<Rightarrow> string \<Rightarrow> market_entry list
     \<Rightarrow> (error + market_entry list) option" where
  "market_get_pages srv k page product_list =
     (case srv k page of
        Inl e \<Rightarrow> Some (Inl e)
      | Inr some_prod \<Rightarrow>
          (case nextPageToken some_prod of
             None \<Rightarrow> Some (Inr (product_list @ offerMappingEntries some_prod))
           | Some page' \<Rightarrow>
               if page' = [] then Some (Inr (product_list @ offerMappingEntries some_prod))
               else market_get_pages srv (Suc k) page'
                      (product_list @ offerMappingEntries some_prod)))"

definition market_get_offer_ids ::
  "(nat \<Rightarrow> string \<Rightarrow> error + market_page) \<Rightarrow> (error + string list) option" where
  "market_get_offer_ids srv =
     (case market_get_pages srv 0 [] [] of
        None \<Rightarrow> None
      | Some (Inl e) \<Rightarrow> Some (Inl e)
      | Some (Inr product_list) \<Rightarrow> Some (Inr (map shopSku product_list)))"

text \<open>
  To speak about the run of a listing: the token and the list with which the \<open>k\<close>-th
  request is made when no earlier request raised, the answer to that request, and
  whether the loop leaves at it.
\<close>

fun seller_run :: "(nat \<Rightarrow> string \<Rightarrow> error + seller_page) \<Rightarrow> nat \<Rightarrow> string \<times> product list" where
  "seller_run srv 0 = ([], [])"
| "seller_run srv (Suc k) =
     (case srv k (fst (seller_run srv k)) of
        Inl e \<Rightarrow> seller_run srv k
      | Inr pg \<Rightarrow> (last_id pg, snd (seller_run srv k) @ page_items pg))"

definition seller_answer :: "(nat \<Rightarrow> string \<Rightarrow> error + seller_page) \<Rightarrow> nat \<Rightarrow> error + seller_page" where
  "seller_answer srv k = srv k (fst (seller_run srv k))"

definition seller_leaves :: "(nat \<Rightarrow> string \<Rightarrow> error + seller_page) \<Rightarrow> nat \<Rightarrow> bool" where
  "seller_leaves srv k =
     (case seller_answer srv k of
        Inl e \<Rightarrow> True
      | Inr pg \<Rightarrow> total pg = int (length (snd (seller_run srv k) @ page_items pg)))"

definition seller_outcome :: "(nat \<Rightarrow> string \<Rightarrow> error + seller_page) \<Rightarrow> nat \<Rightarrow> error + string list" where
  "seller_outcome srv k =
     (case seller_answer srv k of
        Inl e \<Rightarrow> Inl e
      | Inr pg \<Rightarrow>
          Inr (concat (map (\<lambda>j. case seller_answer srv j of
                                  Inl e \<Rightarrow> []
                                | Inr p \<Rightarrow> map product_offer_id (page_items p)) [0..<Suc k])))"

fun market_run :: "(nat \<Rightarrow> string \<Rightarrow> error + market_page) \<Rightarrow> nat \<Rightarrow> string \<times> market_entry list" where
  "market_run srv 0 = ([], [])"
| "market_run srv (Suc k) =
     (case srv k (fst (market_run srv k)) of
        Inl e \<Rightarrow> market_run srv k
      | Inr pg \<Rightarrow>
          (case nextPageToken pg of None \<Rightarrow> [] | Some t \<Rightarrow> t,
           snd (market_run srv k) @ offerMappingEntries pg))"

definition market_answer :: "(nat \<Rightarrow> string \<Rightarrow> error + market_page) \<Rightarrow> nat \<Rightarrow> error + market_page" where
  "market_answer srv k = srv k (fst (market_run srv k))"

definition market_leaves :: "(nat \<Rightarrow> string \<Rightarrow> error + market_page) \<Rightarrow> nat \<Rightarrow> bool" where
  "market_leaves srv k =
     (case market_answer srv k of
        Inl e \<Rightarrow> True
      | Inr pg \<Rightarrow> nextPageToken pg = None \<or> nextPageToken pg = Some [])"

definition market_outcome :: "(nat \<Rightarrow> string \<Rightarrow> error + market_page) \<Rightarrow> nat \<Rightarrow> error + string list" where
  "market_outcome srv k =
     (case market_answer srv k of
        Inl e \<Rightarrow> Inl e
      | Inr pg \<Rightarrow>
          Inr (concat (map (\<lambda>j. case market_answer srv j of
                                  Inl e \<Rightarrow> []
                                | Inr p \<Rightarrow> map shopSku (offerMappingEntries p)) [0..<Suc k])))"

section \<open>Upload: \<open>upload_stocks\<close>\<close>

text \<open>
  \<open>for some_stock in list(divide(stocks, n)): update_stocks(some_stock, ...)\<close>. The
  update call is a network call whose answer is dropped; \<open>upd k chunk\<close> is the exception
  the \<open>k\<close>-th update call raises, if any.
\<close>

fun send_chunks :: "(nat \<Rightarrow> 'a list \<Rightarrow> error option) \<Rightarrow> nat \<Rightarrow> 'a list list \<Rightarrow> error option" where
  "send_chunks upd k [] = None"
| "send_chunks upd k (chunk # rest) =
     (case upd k chunk of Some e \<Rightarrow> Some e | None \<Rightarrow> send_chunks upd (Suc k) rest)"

text \<open>\<open>upload_stocks\<close> of \<open>seller.py\<close>, a coroutine without \<open>await\<close>, so that awaiting it runs
  its body as a plain call; \<open>None\<close> when the listing never ends.\<close>

definition seller_upload_stocks ::
  "(nat \<Rightarrow> string \<Rightarrow> error + seller_page) \<Rightarrow> (nat \<Rightarrow> seller_stock list \<Rightarrow> error option)
     \<Rightarrow> watch list \<Rightarrow> (error + (seller_stock list \<times> seller_stock list)) option" where
  "seller_upload_stocks srv upd watch_remnants =
     (case seller_get_offer_ids srv of
        None \<Rightarrow> None
      | Some (Inl e) \<Rightarrow> Some (Inl e)
      | Some (Inr offer_ids) \<Rightarrow>
          Some (case seller_create_stocks watch_remnants offer_ids of
                  Inl e \<Rightarrow> Inl e
                | Inr (stocks, offer_ids') \<Rightarrow>
                    (case divide stocks 100 of
                       Inl e \<Rightarrow> Inl e
                     | Inr chunks \<Rightarrow>
                         (case send_chunks upd 0 chunks of
                            Some e \<Rightarrow> Inl e
                          | None \<Rightarrow> Inr (filter (\<lambda>s. stock s \<noteq> 0) stocks, stocks)))))"

text \<open>
  \<open>upload_stocks\<close> of \<open>market.py\<close>; the filter reads \<open>stock.get("items")[0].get("count")\<close>,
  which raises \<open>IndexError\<close> on an empty \<open>items\<close> list.
\<close>

fun filter_not_empty :: "market_stock list \<Rightarrow> error + market_stock list" where
  "filter_not_empty [] = Inr []"
| "filter_not_empty (s # rest) =
     (case index0 (items s) of
        Inl e \<Rightarrow> Inl e
      | Inr item \<Rightarrow>
          (case filter_not_empty rest of
             Inl e \<Rightarrow> Inl e
           | Inr kept \<Rightarrow> Inr (if item_count item \<noteq> 0 then s # kept else kept)))"

definition market_upload_stocks ::
  "(nat \<Rightarrow> string \<Rightarrow> error + market_page) \<Rightarrow> (nat \<Rightarrow> market_stock list \<Rightarrow> error option) \<Rightarrow> string
     \<Rightarrow> watch list \<Rightarrow> string \<Rightarrow> (error + (market_stock list \<times> market_stock list)) option" where
  "market_upload_stocks srv upd date watch_remnants warehouse_id =
     (case market_get_offer_ids srv of
        None \<Rightarrow> None
      | Some (Inl e) \<Rightarrow> Some (Inl e)
      | Some (Inr offer_ids) \<Rightarrow>
          Some (case market_create_stocks date watch_remnants offer_ids warehouse_id of
                  Inl e \<Rightarrow> Inl e
                | Inr (stocks, offer_ids') \<Rightarrow>
                    (case divide stocks 2000 of
                       Inl e \<Rightarrow> Inl e
                     | Inr chunks \<Rightarrow>
                         (case send_chunks upd 0 chunks of
                            Some e \<Rightarrow> Inl e
                          | None \<Rightarrow>
                              (case filter_not_empty stocks of
                                 Inl e \<Rightarrow> Inl e
                               | Inr not_empty \<Rightarrow> Inr (not_empty, stocks))))))"

section \<open>Notions used to state the properties\<close>

text \<open>The number a string of decimal digits denotes, continuing from \<open>acc\<close>.\<close>

definition decimal :: "nat \<Rightarrow> string \<Rightarrow> nat" where
  "decimal acc ds = foldl (\<lambda>a c. a * 10 + digit_val c) acc ds"

text \<open>
  The strings that denote an integer, in their ASCII form: white space \<open>a\<close>, a sign (none,
  \<open>+\<close> or \<open>-\<close>), a group \<open>g\<close> of digits, further groups \<open>gs\<close> of digits each after one
  underscore, and white space \<open>b\<close>; and the integer such a string denotes.
\<close>

definition int_literal :: "string \<Rightarrow> string \<Rightarrow> string \<Rightarrow> string list \<Rightarrow> string \<Rightarrow> string" where
  "int_literal a sign g gs b = a @ sign @ g @ concat (map ((#) CHR ''_'') gs) @ b"

definition literal_ok :: "string \<Rightarrow> string \<Rightarrow> string \<Rightarrow> string list \<Rightarrow> string \<Rightarrow> bool" where
  "literal_ok a sign g gs b \<longleftrightarrow>
     list_all is_space a \<and> list_all is_space b
     \<and> (sign = [] \<or> sign = ''+'' \<or> sign = ''-'')
     \<and> g \<noteq> [] \<and> list_all is_digit g
     \<and> list_all (\<lambda>h. h \<noteq> [] \<and> list_all is_digit h) gs"

definition literal_value :: "string \<Rightarrow> string \<Rightarrow> string list \<Rightarrow> int" where
  "literal_value sign g gs =
     (if sign = ''-'' then - int (decimal 0 (g @ concat gs)) else int (decimal 0 (g @ concat gs)))"

text \<open>The product code of an inventory record as the code compares it: \<open>str(watch.get(...))\<close>.\<close>

definition watch_code :: "watch \<Rightarrow> string" where
  "watch_code w = py_str (Kod w)"

text \<open>
  The inventory records that \<open>create_stocks\<close> matches, in inventory order: a record is
  matched when its code is in the working list of offer ids at the moment the loop
  reaches it, and each match takes one occurrence of the code out of that list.
\<close>

fun matched_watches :: "watch list \<Rightarrow> string list \<Rightarrow> watch list" where
  "matched_watches [] offer_ids = []"
| "matched_watches (w # ws) offer_ids =
     (if watch_code w \<in> set offer_ids
      then w # matched_watches ws (remove1 (watch_code w) offer_ids)
      else matched_watches ws offer_ids)"

text \<open>A stock dict of \<open>market.py\<close> with another time stamp.\<close>

definition redate :: "string \<Rightarrow> market_stock \<Rightarrow> market_stock" where
  "redate date s = s\<lparr>items := map (\<lambda>i. i\<lparr>updatedAt := date\<rparr>) (items s)\<rparr>"

text \<open>What a price dict of \<open>seller.py\<close>, and one of \<open>market.py\<close>, must hold to be the
  price record of an inventory record.\<close>

definition seller_price_of :: "watch \<Rightarrow> seller_price \<Rightarrow> bool" where
  "seller_price_of w p \<longleftrightarrow>
     price_offer_id p = watch_code w \<and> price_conversion (Tsena w) = Inr (price p)
     \<and> auto_action_enabled p = ''UNKNOWN'' \<and> currency_code p = ''RUB'' \<and> old_price p = ''0''"

definition market_price_of :: "watch \<Rightarrow> market_price \<Rightarrow> bool" where
  "market_price_of w p \<longleftrightarrow>
     price_id p = watch_code w
     \<and> (case price_conversion (Tsena w) of
           Inl e \<Rightarrow> False
         | Inr digits \<Rightarrow> digits \<noteq> [] \<and> price_value (price_dict p) = int (decimal 0 digits))
     \<and> currencyId (price_dict p) = ''RUR''"

text \<open>The digits \<open>price_conversion\<close> leaves of the price cell, when the cell is a string.\<close>

definition price_digits :: "watch \<Rightarrow> string option" where
  "price_digits w = (case Tsena w of PStr s \<Rightarrow> Some (filter is_digit (takeWhile (\<lambda>c. c \<noteq> CHR ''.'') s)) | _ \<Rightarrow> None)"

text \<open>The end-to-end scenario of the specification.\<close>

definition example_watches :: "watch list" where
  "example_watches =
     [\<lparr>Kod = PStr ''A1'', Kolichestvo = PStr ''>10'', Tsena = PStr ''100.00 p.''\<rparr>,
      \<lparr>Kod = PStr ''A2'', Kolichestvo = PStr ''1'', Tsena = PStr ''50 p.''\<rparr>]"

definition example_offer_ids :: "string list" where
  "example_offer_ids = [''A1'', ''A2'', ''A3'']"

text \<open>
  Platforms for the examples: two that answer a first page and, to the token of that
  page, a last one; a seller platform whose catalogue shrinks during the listing (the
  first page holds two of three entries, every later page is empty and reports a total of
  one); a market platform whose every page carries a continuation token; and an update
  endpoint that never raises.
\<close>

definition two_page_seller :: "nat \<Rightarrow> string \<Rightarrow> error + seller_page" where
  "two_page_seller k token =
     (if token = [] then Inr \<lparr>page_items = [\<lparr>product_id = 1, product_offer_id = ''A1''\<rparr>],
                               total = 2, last_id = ''c1''\<rparr>
      else Inr \<lparr>page_items = [\<lparr>product_id = 2, product_offer_id = ''A2''\<rparr>],
                total = 2, last_id = ''c2''\<rparr>)"

definition two_page_market :: "nat \<Rightarrow> string \<Rightarrow> error + market_page" where
  "two_page_market k token =
     (if token = [] then Inr \<lparr>offerMappingEntries = [\<lparr>shopSku = ''A1''\<rparr>], nextPageToken = Some ''p2''\<rparr>
      else Inr \<lparr>offerMappingEntries = [\<lparr>shopSku = ''A2''\<rparr>], nextPageToken = None\<rparr>)"

definition overshoot_seller :: "nat \<Rightarrow> string \<Rightarrow> error + seller_page" where
  "overshoot_seller k token =
     Inr \<lparr>page_items = (if k = 0 then [\<lparr>product_id = 1, product_offer_id = ''A1''\<rparr>,
                                         \<lparr>product_id = 2, product_offer_id = ''A2''\<rparr>] else []),
          total = (if k = 0 then 3 else 1), last_id = ''c''\<rparr>"

definition endless_market :: "nat \<Rightarrow> string \<Rightarrow> error + market_page" where
  "endless_market k token = Inr \<lparr>offerMappingEntries = [], nextPageToken = Some ''next''\<rparr>"

definition accepting :: "nat \<Rightarrow> 'a list \<Rightarrow> error option" where
  "accepting k chunk = None"

section \<open>Chunking: \<open>divide\<close>\<close>

lemma take_min_drop: "take (min (a + m) (length lst) - a) (drop a lst) = take m (drop a lst)"
  by (cases "a + m \<le> length lst") (simp_all add: min_def)

lemma slice_bound_nat: "slice_bound len (int j) = min j len"
  by (simp add: slice_bound_def)

lemma py_slice_nat: "py_slice lst (int a) (int (a + m)) = take m (drop a lst)"
proof (cases "a \<le> length lst")
  case True
  then have "min a (length lst) = a" by simp
  then show ?thesis by (simp only: py_slice_def slice_bound_nat take_min_drop)
next
  case False
  then show ?thesis by (simp add: py_slice_def slice_bound_nat)
qed

lemma py_slice_chunk:
  assumes "0 < n"
  shows "py_slice lst (int k * n) (int k * n + n) = take (nat n) (drop (k * nat n) lst)"
proof -
  obtain m where m: "n = int m" using assms by (metis zero_less_imp_eq_int)
  have e1: "int k * n = int (k * m)" by (simp add: m)
  have e2: "int k * n + n = int (k * m + m)" by (simp add: m)
  show ?thesis unfolding e2 unfolding e1 by (simp only: py_slice_nat m nat_int)
qed

lemma divide_pos:
  assumes "0 < n"
  shows "divide lst n = Inr (map (\<lambda>k. take (nat n) (drop (k * nat n) lst))
                            [0..<range_len 0 (int (length lst)) n])"
  using assms by (simp add: divide_def py_range_def py_slice_chunk o_def)

lemma concat_chunks: "concat (map (\<lambda>k. take m (drop (k * m) lst)) [0..<c]) = take (c * m) lst"
proof (induction c)
  case 0 show ?case by simp
next
  case (Suc c)
  have "take (c * m) lst @ take m (drop (c * m) lst) = take (c * m + m) lst"
    by (simp add: take_add)
  with Suc show ?case by (simp add: add.commute)
qed

lemma range_len_nat:
  assumes "0 < m"
  shows "range_len 0 (int (Suc l)) (int m) = Suc (l div m)"
proof -
  have "int (Suc l) - 0 - 1 = int l" by simp
  moreover have "int l div int m = int (l div m)" by (simp add: zdiv_int)
  moreover have "nat (int (l div m) + 1) = Suc (l div m)" by simp
  ultimately show ?thesis using assms by (simp add: range_len_def)
qed

lemma range_len_zero: "range_len 0 0 n = 0"
  by (simp add: range_len_def)

lemma range_len_covers:
  assumes "0 < m"
  shows "len \<le> range_len 0 (int len) (int m) * m"
proof (cases len)
  case 0 then show ?thesis by simp
next
  case (Suc l)
  have "l < Suc (l div m) * m"
    using assms by (simp add: dividend_less_div_times add.commute)
  then show ?thesis unfolding Suc range_len_nat [OF assms] by simp
qed

lemma range_len_inside:
  assumes "0 < m" and "k < range_len 0 (int len) (int m)"
  shows "k * m < len"
proof (cases len)
  case 0 with assms(2) show ?thesis by (simp add: range_len_zero)
next
  case (Suc l)
  from assms(2) have "k \<le> l div m" unfolding Suc range_len_nat [OF assms(1)] by simp
  then have "k * m \<le> l div m * m" by simp
  also have "\<dots> \<le> l" by simp
  finally show ?thesis unfolding Suc by simp
qed

section \<open>Price conversion\<close>

lemma digit_chars: "map char_of [48, 49, 50, 51, 52, 53, 54, 55, 56, 57 :: nat] = ''0123456789''"
  by code_simp

lemma is_digit_iff: "is_digit c \<longleftrightarrow> c \<in> set ''0123456789''"
proof -
  have c: "c = char_of (of_char c :: nat)" by simp
  have r: "(48 \<le> x \<and> x \<le> 57) = (x \<in> {48, 49, 50, 51, 52, 53, 54, 55, 56, 57})" for x :: nat
    by simp arith
  have "is_digit c \<longleftrightarrow> (of_char c :: nat) \<in> {48, 49, 50, 51, 52, 53, 54, 55, 56, 57}"
    unfolding is_digit_def by (rule r)
  also have "\<dots> \<longleftrightarrow> c \<in> set ''0123456789''"
  proof
    assume "(of_char c :: nat) \<in> {48, 49, 50, 51, 52, 53, 54, 55, 56, 57}"
    then have "char_of (of_char c :: nat) \<in> set (map char_of [48, 49, 50, 51, 52, 53, 54, 55, 56, 57 :: nat])"
      unfolding set_map by (intro imageI) simp
    then show "c \<in> set ''0123456789''" unfolding digit_chars by simp
  next
    assume "c \<in> set ''0123456789''"
    then show "(of_char c :: nat) \<in> {48, 49, 50, 51, 52, 53, 54, 55, 56, 57}" by auto
  qed
  finally show ?thesis .
qed

lemma split_hd: "split s sep = takeWhile (\<lambda>c. c \<noteq> sep) s # (case dropWhile (\<lambda>c. c \<noteq> sep) s of [] \<Rightarrow> [] | _ # r \<Rightarrow> split r sep)"
  by (induction s) (auto split: list.splits)

lemma index0_split: "index0 (split s sep) = Inr (takeWhile (\<lambda>c. c \<noteq> sep) s)"
  by (subst split_hd) (simp add: index0_def)

lemma price_conversion_str:
  "price_conversion (PStr s) = Inr (filter is_digit (takeWhile (\<lambda>c. c \<noteq> CHR ''.'') s))"
  by (simp add: index0_split re_sub_non_digits_def)

text \<open>
  C5: for every price string, \<open>price_conversion\<close> cuts the string at the first \<open>"."\<close> and
  deletes every character that is not a digit from the part before it, so the result
  holds digits only; the price \<open>5'990.00\<close> followed by the rouble abbreviation and a dot
  gives \<open>5990\<close>, and \<open>199.99\<close> gives \<open>199\<close>.
\<close>

theorem price_conversion_digits:
  "price_conversion (PStr s) = Inr (filter (\<lambda>c. c \<in> set ''0123456789'') (takeWhile (\<lambda>c. c \<noteq> CHR ''.'') s))
   \<and> price_conversion (PStr (''5'' @ [CHR 0x27] @ ''990.00 '' @ [CHR 0xD1, CHR 0x80, CHR 0xD1, CHR 0x83, CHR 0xD0, CHR 0xB1] @ ''.'')) = Inr ''5990''
   \<and> price_conversion (PStr ''199.99'') = Inr ''199''"
  unfolding price_conversion_str by (simp add: is_digit_iff [abs_def])

section \<open>The contract of \<open>divide\<close>\<close>

text \<open>
  C6: for every list and every \<open>n \<ge> 1\<close>, \<open>divide\<close> yields consecutive pieces of the list in
  order: their concatenation is the list, every piece is non-empty and has at most \<open>n\<close>
  elements, every piece but the last has exactly \<open>n\<close>, the \<open>k\<close>-th piece starts at
  position \<open>k * n\<close>, and the empty list yields no piece.
\<close>

theorem divide_chunks:
  assumes "1 \<le> n"
  shows "\<exists>chunks. divide lst n = Inr chunks \<and> concat chunks = lst
           \<and> (\<forall>c \<in> set chunks. c \<noteq> [] \<and> int (length c) \<le> n)
           \<and> (\<forall>c \<in> set (butlast chunks). int (length c) = n)
           \<and> (\<forall>k < length chunks. chunks ! k = take (nat n) (drop (k * nat n) lst))
           \<and> (lst = [] \<longrightarrow> chunks = [])"
proof -
  define m where "m = nat n"
  have m: "n = int m" "0 < m" using assms by (simp_all add: m_def)
  define c where "c = range_len 0 (int (length lst)) (int m)"
  define chunks where "chunks = map (\<lambda>k. take m (drop (k * m) lst)) [0..<c]"
  have d: "divide lst n = Inr chunks"
    using divide_pos [of n lst] m by (simp add: chunks_def c_def)
  have cover: "length lst \<le> c * m" unfolding c_def by (rule range_len_covers [OF m(2)])
  have inside: "k * m < length lst" if "k < c" for k
    using that unfolding c_def by (rule range_len_inside [OF m(2)])
  have cc: "concat chunks = lst"
    unfolding chunks_def concat_chunks using cover by simp
  have len: "ch \<noteq> [] \<and> int (length ch) \<le> n" if "ch \<in> set chunks" for ch
  proof -
    from that obtain k where k: "k < c" "ch = take m (drop (k * m) lst)"
      by (auto simp: chunks_def)
    from inside [OF k(1)] m(2) show ?thesis by (simp add: k(2) m(1))
  qed
  have bl: "butlast chunks = map (\<lambda>k. take m (drop (k * m) lst)) [0..<c - 1]"
    unfolding chunks_def by (cases c) (simp_all add: map_butlast [symmetric])
  have full: "int (length ch) = n" if "ch \<in> set (butlast chunks)" for ch
  proof -
    from that obtain k where k: "k < c - 1" "ch = take m (drop (k * m) lst)"
      unfolding bl by auto
    from k(1) have "Suc k < c" by simp
    from inside [OF this] have "k * m + m < length lst" by (simp add: add.commute)
    then show ?thesis by (simp add: k(2) m(1))
  qed
  have nth: "chunks ! k = take (nat n) (drop (k * nat n) lst)" if "k < length chunks" for k
    using that by (simp add: chunks_def m(1))
  have emp: "lst = [] \<longrightarrow> chunks = []"
    by (simp add: chunks_def c_def range_len_zero)
  from d cc len full nth emp show ?thesis by blast
qed

theorem divide_chunks_witness:
  "(1::int) \<le> 2
   \<and> (\<exists>chunks. divide [1, 2, 3, 4, 5 :: nat] 2 = Inr chunks \<and> concat chunks = [1, 2, 3, 4, 5]
         \<and> (\<forall>c \<in> set chunks. c \<noteq> [] \<and> int (length c) \<le> 2)
         \<and> (\<forall>c \<in> set (butlast chunks). int (length c) = 2))
   \<and> divide [1, 2, 3, 4, 5 :: nat] 2 = Inr [[1, 2], [3, 4], [5]]"
proof -
  have h: "(1::int) \<le> 2" by simp
  have e: "divide [1, 2, 3, 4, 5 :: nat] 2 = Inr [[1, 2], [3, 4], [5]]"
    by (simp add: divide_def py_range_def range_len_def py_slice_def slice_bound_def upt_rec)
  from divide_chunks [OF h, of "[1, 2, 3, 4, 5 :: nat]"] h e show ?thesis by blast
qed

text \<open>
  C10: the contract of \<open>divide\<close> needs \<open>n \<ge> 1\<close>. For \<open>n < 0\<close> it yields no piece at all, so
  for a non-empty list the concatenation of the pieces is not the list; for \<open>n = 0\<close>
  advancing the generator raises \<open>ValueError\<close>.
\<close>

theorem divide_nonpositive:
  "(n < 0 \<longrightarrow> divide lst n = Inr [] \<and> (lst \<noteq> [] \<longrightarrow> (\<forall>chunks. divide lst n = Inr chunks \<longrightarrow> concat chunks \<noteq> lst)))
   \<and> divide lst 0 = Inl ValueError"
  by (auto simp: divide_def py_range_def range_len_def)

theorem divide_nonpositive_witness:
  "divide [1, 2, 3 :: nat] (- 2) = Inr [] \<and> divide [1, 2, 3 :: nat] 0 = Inl ValueError"
  using divide_nonpositive [of "- 2" "[1, 2, 3 :: nat]"] by simp

section \<open>Integers and their numerals\<close>

lemma is_digit_digit_char: "d < 10 \<Longrightarrow> is_digit (digit_char d)"
  by (simp add: is_digit_def digit_char_def)

lemma digit_val_digit_char: "d < 10 \<Longrightarrow> digit_val (digit_char d) = d"
  by (simp add: digit_val_def digit_char_def)

lemma str_nat_digits: "\<forall>c \<in> set (str_nat n). is_digit c"
proof (induction n rule: str_nat.induct)
  case (1 n)
  show ?case
  proof (cases "n < 10")
    case True
    then show ?thesis by (subst str_nat.simps) (simp add: is_digit_digit_char)
  next
    case False
    with 1 show ?thesis by (subst str_nat.simps) (simp add: is_digit_digit_char)
  qed
qed

lemma str_nat_nonempty: "str_nat n \<noteq> []"
  by (subst str_nat.simps) simp

lemma digits_val_all_digits:
  "\<forall>c \<in> set ds. is_digit c \<Longrightarrow> digits_val acc ds = Some (decimal acc ds)"
  by (induction acc ds rule: digits_val.induct) (simp_all add: decimal_def)

lemma decimal_str_nat: "decimal 0 (str_nat n) = n"
proof (induction n rule: str_nat.induct)
  case (1 n)
  show ?case
  proof (cases "n < 10")
    case True
    then show ?thesis by (subst str_nat.simps) (simp add: decimal_def digit_val_digit_char)
  next
    case False
    with 1 have "decimal 0 (str_nat (n div 10)) = n div 10" by simp
    then show ?thesis using False
      by (subst str_nat.simps) (simp add: decimal_def digit_val_digit_char)
  qed
qed

lemma parse_nat_str_nat: "parse_nat (str_nat n) = Some n"
proof -
  obtain c cs where s: "str_nat n = c # cs" using str_nat_nonempty by (cases "str_nat n") auto
  have d: "\<forall>x \<in> set (c # cs). is_digit x" using str_nat_digits [of n] s by simp
  have "decimal (digit_val c) cs = decimal 0 (c # cs)" by (simp add: decimal_def)
  also have "\<dots> = n" using decimal_str_nat [of n] s by simp
  finally show ?thesis using d by (simp add: parse_nat_def s digits_val_all_digits)
qed

lemma dropWhile_none: "\<forall>c \<in> set t. \<not> P c \<Longrightarrow> dropWhile P t = t"
  by (cases t) simp_all

lemma strip_no_space: "\<forall>c \<in> set s. \<not> is_space c \<Longrightarrow> strip s = s"
proof -
  assume a: "\<forall>c \<in> set s. \<not> is_space c"
  then have b: "\<forall>c \<in> set (rev s). \<not> is_space c" by simp
  show ?thesis unfolding strip_def
    by (simp only: dropWhile_none [OF a] dropWhile_none [OF b] rev_rev_ident)
qed

lemma digit_not_space: "is_digit c \<Longrightarrow> \<not> is_space c"
  by (auto simp: is_digit_def is_space_def)

lemma digit_not_sign: "is_digit c \<Longrightarrow> c \<noteq> CHR ''-'' \<and> c \<noteq> CHR ''+''"
  by (auto simp: is_digit_def)

lemma digit_ascii: "is_digit c \<Longrightarrow> (of_char c :: nat) < 127"
  by (simp add: is_digit_def)

lemma ascii_form_ascii: "\<forall>c \<in> set s. (of_char c :: nat) < 127 \<Longrightarrow> ascii_form s = Some s"
  by (induction s) simp_all

lemma int_of_str_ascii:
  "\<forall>c \<in> set s. (of_char c :: nat) < 127 \<Longrightarrow> int_of_str s = int_of_ascii s"
  by (simp add: int_of_str_def ascii_form_ascii)

lemma int_of_ascii_str_int: "int_of_ascii (str_int i) = Some i"
proof (cases "i < 0")
  case True
  have m: "\<not> is_space CHR ''-''" by (simp add: is_space_def)
  have "\<forall>c \<in> set (str_nat (nat (- i))). \<not> is_space c"
    using str_nat_digits [of "nat (- i)"] digit_not_space by blast
  with m have "\<forall>c \<in> set (CHR ''-'' # str_nat (nat (- i))). \<not> is_space c" by simp
  then have "strip (CHR ''-'' # str_nat (nat (- i))) = CHR ''-'' # str_nat (nat (- i))"
    by (rule strip_no_space)
  then show ?thesis using True by (simp add: int_of_ascii_def str_int_def parse_nat_str_nat)
next
  case False
  obtain c cs where s: "str_nat (nat i) = c # cs"
    using str_nat_nonempty by (cases "str_nat (nat i)") auto
  have d: "\<forall>x \<in> set (c # cs). is_digit x" using str_nat_digits [of "nat i"] s by simp
  then have "strip (c # cs) = c # cs" by (intro strip_no_space) (auto simp: digit_not_space)
  moreover have "c \<noteq> CHR ''-'' \<and> c \<noteq> CHR ''+''" using d by (simp add: digit_not_sign)
  moreover have "parse_nat (c # cs) = Some (nat i)" using parse_nat_str_nat [of "nat i"] s by simp
  ultimately show ?thesis using False by (simp add: int_of_ascii_def str_int_def s)
qed

lemma str_int_ascii: "\<forall>c \<in> set (str_int i). (of_char c :: nat) < 127"
  using str_nat_digits digit_ascii by (auto simp: str_int_def)

lemma int_of_str_str_int: "int_of_str (str_int i) = Some i"
  by (simp add: int_of_str_ascii [OF str_int_ascii] int_of_ascii_str_int)

lemma int_of_ascii_digits:
  assumes "s \<noteq> []" and "\<forall>c \<in> set s. is_digit c"
  shows "int_of_ascii s = Some (int (decimal 0 s))"
proof -
  obtain c cs where s: "s = c # cs" using assms(1) by (cases s) auto
  have "\<forall>c \<in> set s. \<not> is_space c" using assms(2) digit_not_space by blast
  then have st: "strip s = s" by (rule strip_no_space)
  have c: "is_digit c" "c \<noteq> CHR ''-''" "c \<noteq> CHR ''+''"
    using assms(2) digit_not_sign [of c] by (simp_all add: s)
  have "\<forall>x \<in> set cs. is_digit x" using assms(2) by (simp add: s)
  then have "digits_val (digit_val c) cs = Some (decimal (digit_val c) cs)"
    by (rule digits_val_all_digits)
  moreover have "decimal (digit_val c) cs = decimal 0 s" by (simp add: decimal_def s)
  ultimately have "parse_nat s = Some (decimal 0 s)" using c(1) by (simp add: parse_nat_def s)
  then show ?thesis using c st unfolding int_of_ascii_def by (simp add: s)
qed

lemma int_of_str_digits:
  assumes "s \<noteq> []" and "\<forall>c \<in> set s. is_digit c"
  shows "int_of_str s = Some (int (decimal 0 s))"
proof -
  have "\<forall>c \<in> set s. (of_char c :: nat) < 127" using assms(2) digit_ascii by blast
  then show ?thesis by (simp add: int_of_str_ascii int_of_ascii_digits [OF assms])
qed

lemma int_of_str_empty: "int_of_str [] = None"
  by (simp add: int_of_str_def int_of_ascii_def strip_def)

section \<open>Integer literals\<close>

lemma underscore_not_digit: "\<not> is_digit CHR ''_''"
  by (simp add: is_digit_def)

lemma digits_val_digit: "is_digit c \<Longrightarrow> digits_val acc (c # cs) = digits_val (acc * 10 + digit_val c) cs"
  by (cases cs) simp_all

lemma digits_val_underscore:
  "is_digit d \<Longrightarrow> digits_val acc (CHR ''_'' # d # ds) = digits_val (acc * 10 + digit_val d) ds"
  by (simp add: underscore_not_digit)

lemma decimal_Cons: "decimal acc (c # cs) = decimal (acc * 10 + digit_val c) cs"
  by (simp add: decimal_def)

lemma digits_val_groups:
  assumes "list_all (\<lambda>h. h \<noteq> [] \<and> list_all is_digit h) gs" and "list_all is_digit g"
  shows "digits_val acc (g @ concat (map ((#) CHR ''_'') gs)) = Some (decimal acc (g @ concat gs))"
  using assms
proof (induction gs arbitrary: g acc)
  case Nil
  then show ?case by (simp add: digits_val_all_digits list_all_iff)
next
  case (Cons h gs)
  from Cons.prems(1) obtain d h' where h: "h = d # h'" and d: "is_digit d"
    and h': "list_all is_digit h'" and gs: "list_all (\<lambda>h. h \<noteq> [] \<and> list_all is_digit h) gs"
    by (cases h) auto
  have tail: "digits_val acc' (concat (map ((#) CHR ''_'') (h # gs)))
                = Some (decimal acc' (concat (h # gs)))" for acc'
    using Cons.IH [OF gs h', of "acc' * 10 + digit_val d"] d
    by (simp add: h underscore_not_digit decimal_Cons)
  from Cons.prems(2) show ?case
  proof (induction g arbitrary: acc)
    case Nil
    show ?case using tail [of acc] by simp
  next
    case (Cons c g)
    then show ?case by (simp add: digits_val_digit decimal_Cons)
  qed
qed

lemma body_last_digit:
  assumes "g \<noteq> []" and "list_all is_digit g" and "list_all (\<lambda>h. h \<noteq> [] \<and> list_all is_digit h) gs"
  shows "is_digit (last (g @ concat (map ((#) CHR ''_'') gs)))"
proof (cases gs rule: rev_cases)
  case Nil
  with assms show ?thesis by (simp add: list_all_iff)
next
  case (snoc gs' h)
  with assms(3) have h: "h \<noteq> []" "list_all is_digit h" by simp_all
  then have "is_digit (last h)" by (simp add: list_all_iff)
  with h show ?thesis by (simp add: snoc)
qed

lemma strip_padded:
  assumes "list_all is_space a" and "list_all is_space b"
    and "u \<noteq> []" and "\<not> is_space (hd u)" and "\<not> is_space (last u)"
  shows "strip (a @ u @ b) = u"
proof -
  obtain x u' where u: "u = x # u'" using assms(3) by (cases u) auto
  have 1: "dropWhile is_space (a @ u @ b) = u @ b"
    using assms(1,4) by (simp add: dropWhile_append2 list_all_iff u)
  obtain y v where r: "rev u = y # v" using assms(3) by (cases "rev u") auto
  then have "y = last u" by (metis last_rev list.sel(1) rev_rev_ident)
  with assms(5) have ny: "\<not> is_space y" by simp
  have "dropWhile is_space (rev b @ rev u) = dropWhile is_space (rev u)"
  proof (rule dropWhile_append2)
    fix x assume "x \<in> set (rev b)"
    with assms(2) show "is_space x" by (simp add: list_all_iff)
  qed
  also have "\<dots> = rev u" using ny by (simp add: r)
  finally have "dropWhile is_space (rev b @ rev u) = rev u" .
  then show ?thesis by (simp add: strip_def 1)
qed

lemma parse_nat_body:
  assumes "g \<noteq> []" and "list_all is_digit g" and "list_all (\<lambda>h. h \<noteq> [] \<and> list_all is_digit h) gs"
  shows "parse_nat (g @ concat (map ((#) CHR ''_'') gs)) = Some (decimal 0 (g @ concat gs))"
proof -
  obtain c g' where g: "g = c # g'" using assms(1) by (cases g) auto
  with assms(2) have c: "is_digit c" and g': "list_all is_digit g'" by simp_all
  from digits_val_groups [OF assms(3) g', of "digit_val c"] c
  show ?thesis by (simp add: parse_nat_def g decimal_Cons)
qed

lemma int_of_ascii_literal:
  assumes "literal_ok a sign g gs b"
  shows "int_of_ascii (int_literal a sign g gs b) = Some (literal_value sign g gs)"
proof -
  let ?body = "g @ concat (map ((#) CHR ''_'') gs)"
  from assms have a: "list_all is_space a" and b: "list_all is_space b"
    and s: "sign = [] \<or> sign = ''+'' \<or> sign = ''-''"
    and g: "g \<noteq> []" "list_all is_digit g" and gs: "list_all (\<lambda>h. h \<noteq> [] \<and> list_all is_digit h) gs"
    by (simp_all add: literal_ok_def)
  obtain c g' where gc: "g = c # g'" using g(1) by (cases g) auto
  with g(2) have c: "is_digit c" by simp
  have p: "parse_nat ?body = Some (decimal 0 (g @ concat gs))" by (rule parse_nat_body [OF g gs])
  have l: "\<not> is_space (last ?body)" using body_last_digit [OF g gs] by (rule digit_not_space)
  have ne: "?body \<noteq> []" using g(1) by simp
  have sp: "\<not> is_space CHR ''+''" "\<not> is_space CHR ''-''" by (simp_all add: is_space_def)
  have st: "strip (a @ (sign @ ?body) @ b) = sign @ ?body"
  proof (rule strip_padded [OF a b])
    show "sign @ ?body \<noteq> []" using ne by simp
    show "\<not> is_space (hd (sign @ ?body))"
      using s sp digit_not_space [OF c] by (auto simp: gc)
    show "\<not> is_space (last (sign @ ?body))" using l ne by simp
  qed
  have e: "int_literal a sign g gs b = a @ (sign @ ?body) @ b" by (simp add: int_literal_def)
  have r: "int_of_ascii (int_literal a sign g gs b) =
     (case sign @ ?body of [] \<Rightarrow> None
      | c # cs \<Rightarrow>
          if c = CHR ''-'' then map_option (\<lambda>n. - int n) (parse_nat cs)
          else if c = CHR ''+'' then map_option int (parse_nat cs)
          else map_option int (parse_nat (c # cs)))"
    unfolding e int_of_ascii_def st ..
  from s show ?thesis
  proof (elim disjE)
    assume n: "sign = []"
    have "parse_nat (c # g' @ concat (map ((#) CHR ''_'') gs)) = Some (decimal 0 (g @ concat gs))"
      using p by (simp add: gc)
    then show ?thesis unfolding r using digit_not_sign [OF c]
      by (simp add: n gc literal_value_def)
  next
    assume n: "sign = ''+''"
    show ?thesis unfolding r using p by (simp add: n literal_value_def)
  next
    assume n: "sign = ''-''"
    show ?thesis unfolding r using p by (simp add: n literal_value_def)
  qed
qed

lemma strip_decompose:
  "\<exists>a b. t = a @ strip t @ b \<and> list_all is_space a \<and> list_all is_space b"
proof -
  let ?v = "dropWhile is_space t"
  have 1: "t = takeWhile is_space t @ ?v" by simp
  have "rev (takeWhile is_space (rev ?v) @ dropWhile is_space (rev ?v)) = ?v"
    by (simp only: takeWhile_dropWhile_id rev_rev_ident)
  then have "rev (dropWhile is_space (rev ?v)) @ rev (takeWhile is_space (rev ?v)) = ?v"
    by (simp only: rev_append)
  then have 2: "?v = strip t @ rev (takeWhile is_space (rev ?v))"
    by (simp only: strip_def)
  have a: "list_all is_space (takeWhile is_space t)"
    by (simp add: list_all_iff) (meson set_takeWhileD)
  have b: "list_all is_space (rev (takeWhile is_space (rev ?v)))"
    by (simp add: list_all_iff) (meson set_takeWhileD)
  have "t = takeWhile is_space t @ strip t @ rev (takeWhile is_space (rev ?v))"
    using 1 2 by metis
  with a b show ?thesis by blast
qed

lemma digits_val_decompose:
  "digits_val acc cs = Some n \<Longrightarrow>
     \<exists>g gs. cs = g @ concat (map ((#) CHR ''_'') gs) \<and> list_all is_digit g
        \<and> list_all (\<lambda>h. h \<noteq> [] \<and> list_all is_digit h) gs \<and> n = decimal acc (g @ concat gs)"
proof (induction acc cs arbitrary: n rule: digits_val.induct)
  case (1 acc)
  then have "[] = [] @ concat (map ((#) CHR ''_'') []) \<and> list_all is_digit []
        \<and> list_all (\<lambda>h. h \<noteq> [] \<and> list_all is_digit h) [] \<and> n = decimal acc ([] @ concat [])"
    by (simp add: decimal_def)
  then show ?case by blast
next
  case (2 acc c)
  then have c: "is_digit c" and n: "n = acc * 10 + digit_val c" by (auto split: if_splits)
  then have "[c] = [c] @ concat (map ((#) CHR ''_'') []) \<and> list_all is_digit [c]
        \<and> list_all (\<lambda>h. h \<noteq> [] \<and> list_all is_digit h) [] \<and> n = decimal acc ([c] @ concat [])"
    by (simp add: decimal_def)
  then show ?case by blast
next
  case (3 acc c d ds)
  show ?case
  proof (cases "is_digit c")
    case True
    with 3(3) have "digits_val (acc * 10 + digit_val c) (d # ds) = Some n" by simp
    from 3(1) [OF True this] obtain g gs where
      e: "d # ds = g @ concat (map ((#) CHR ''_'') gs)" and g: "list_all is_digit g"
      and gs: "list_all (\<lambda>h. h \<noteq> [] \<and> list_all is_digit h) gs"
      and n: "n = decimal (acc * 10 + digit_val c) (g @ concat gs)"
      by blast
    have "c # d # ds = (c # g) @ concat (map ((#) CHR ''_'') gs) \<and> list_all is_digit (c # g)
        \<and> list_all (\<lambda>h. h \<noteq> [] \<and> list_all is_digit h) gs \<and> n = decimal acc ((c # g) @ concat gs)"
      using e g gs n True by (simp add: decimal_Cons)
    then show ?thesis by blast
  next
    case False
    with 3(3) have u: "c = CHR ''_''" and d: "is_digit d"
      and r: "digits_val (acc * 10 + digit_val d) ds = Some n"
      by (auto split: if_splits)
    from 3(2) [OF False _ r] u d obtain g gs where
      e: "ds = g @ concat (map ((#) CHR ''_'') gs)" and g: "list_all is_digit g"
      and gs: "list_all (\<lambda>h. h \<noteq> [] \<and> list_all is_digit h) gs"
      and n: "n = decimal (acc * 10 + digit_val d) (g @ concat gs)"
      by blast
    have "c # d # ds = [] @ concat (map ((#) CHR ''_'') ((d # g) # gs)) \<and> list_all is_digit []
        \<and> list_all (\<lambda>h. h \<noteq> [] \<and> list_all is_digit h) ((d # g) # gs)
        \<and> n = decimal acc ([] @ concat ((d # g) # gs))"
      using e g gs n u d by (simp add: decimal_Cons)
    then show ?thesis by blast
  qed
qed

lemma parse_nat_decompose:
  assumes "parse_nat u = Some n"
  shows "\<exists>g gs. u = g @ concat (map ((#) CHR ''_'') gs) \<and> g \<noteq> [] \<and> list_all is_digit g
        \<and> list_all (\<lambda>h. h \<noteq> [] \<and> list_all is_digit h) gs \<and> n = decimal 0 (g @ concat gs)"
proof -
  from assms obtain c cs where u: "u = c # cs" and c: "is_digit c"
    and d: "digits_val (digit_val c) cs = Some n"
    by (cases u) (auto simp: parse_nat_def split: if_splits)
  from digits_val_decompose [OF d] obtain g gs where
    e: "cs = g @ concat (map ((#) CHR ''_'') gs)" and g: "list_all is_digit g"
    and gs: "list_all (\<lambda>h. h \<noteq> [] \<and> list_all is_digit h) gs"
    and n: "n = decimal (digit_val c) (g @ concat gs)"
    by blast
  have "u = (c # g) @ concat (map ((#) CHR ''_'') gs) \<and> c # g \<noteq> [] \<and> list_all is_digit (c # g)
        \<and> list_all (\<lambda>h. h \<noteq> [] \<and> list_all is_digit h) gs \<and> n = decimal 0 ((c # g) @ concat gs)"
    using u e c g gs n by (simp add: decimal_Cons)
  then show ?thesis by blast
qed

lemma int_of_ascii_decompose:
  assumes "int_of_ascii t = Some n"
  shows "\<exists>a sign g gs b. t = int_literal a sign g gs b \<and> literal_ok a sign g gs b
           \<and> n = literal_value sign g gs"
proof -
  obtain a b where t: "t = a @ strip t @ b" and a: "list_all is_space a" and b: "list_all is_space b"
    using strip_decompose [of t] by blast
  from assms obtain c cs where st: "strip t = c # cs"
    by (cases "strip t") (auto simp: int_of_ascii_def)
  have "\<exists>sign g gs. strip t = sign @ g @ concat (map ((#) CHR ''_'') gs)
          \<and> (sign = [] \<or> sign = ''+'' \<or> sign = ''-'') \<and> g \<noteq> [] \<and> list_all is_digit g
          \<and> list_all (\<lambda>h. h \<noteq> [] \<and> list_all is_digit h) gs \<and> n = literal_value sign g gs"
  proof (cases "c = CHR ''-''")
    case True
    with assms st obtain m where p: "parse_nat cs = Some m" and n: "n = - int m"
      by (auto simp: int_of_ascii_def)
    from parse_nat_decompose [OF p] obtain g gs where
      "cs = g @ concat (map ((#) CHR ''_'') gs)" "g \<noteq> []" "list_all is_digit g"
      "list_all (\<lambda>h. h \<noteq> [] \<and> list_all is_digit h) gs" "m = decimal 0 (g @ concat gs)"
      by blast
    then have "strip t = ''-'' @ g @ concat (map ((#) CHR ''_'') gs)
          \<and> (''-'' = [] \<or> ''-'' = ''+'' \<or> ''-'' = ''-'') \<and> g \<noteq> [] \<and> list_all is_digit g
          \<and> list_all (\<lambda>h. h \<noteq> [] \<and> list_all is_digit h) gs \<and> n = literal_value ''-'' g gs"
      using st True n by (simp add: literal_value_def)
    then show ?thesis by blast
  next
    case False
    show ?thesis
    proof (cases "c = CHR ''+''")
      case True
      with assms st obtain m where p: "parse_nat cs = Some m" and n: "n = int m"
        by (auto simp: int_of_ascii_def)
      from parse_nat_decompose [OF p] obtain g gs where
        "cs = g @ concat (map ((#) CHR ''_'') gs)" "g \<noteq> []" "list_all is_digit g"
        "list_all (\<lambda>h. h \<noteq> [] \<and> list_all is_digit h) gs" "m = decimal 0 (g @ concat gs)"
        by blast
      then have "strip t = ''+'' @ g @ concat (map ((#) CHR ''_'') gs)
          \<and> (''+'' = [] \<or> ''+'' = ''+'' \<or> ''+'' = ''-'') \<and> g \<noteq> [] \<and> list_all is_digit g
          \<and> list_all (\<lambda>h. h \<noteq> [] \<and> list_all is_digit h) gs \<and> n = literal_value ''+'' g gs"
        using st True n by (simp add: literal_value_def)
      then show ?thesis by blast
    next
      case False
      with \<open>c \<noteq> CHR ''-''\<close> assms st obtain m where p: "parse_nat (c # cs) = Some m" and n: "n = int m"
        by (auto simp: int_of_ascii_def)
      from parse_nat_decompose [OF p] obtain g gs where
        "c # cs = g @ concat (map ((#) CHR ''_'') gs)" "g \<noteq> []" "list_all is_digit g"
        "list_all (\<lambda>h. h \<noteq> [] \<and> list_all is_digit h) gs" "m = decimal 0 (g @ concat gs)"
        by blast
      then have "strip t = [] @ g @ concat (map ((#) CHR ''_'') gs)
          \<and> ([] = [] \<or> [] = ''+'' \<or> [] = ''-'') \<and> g \<noteq> [] \<and> list_all is_digit g
          \<and> list_all (\<lambda>h. h \<noteq> [] \<and> list_all is_digit h) gs \<and> n = literal_value [] g gs"
        using st n by (simp add: literal_value_def)
      then show ?thesis by blast
    qed
  qed
  then obtain sign g gs where s: "strip t = sign @ g @ concat (map ((#) CHR ''_'') gs)"
    and ok: "sign = [] \<or> sign = ''+'' \<or> sign = ''-''" "g \<noteq> []" "list_all is_digit g"
      "list_all (\<lambda>h. h \<noteq> [] \<and> list_all is_digit h) gs"
    and n: "n = literal_value sign g gs"
    by blast
  have "t = int_literal a sign g gs b" using t s by (simp add: int_literal_def)
  moreover have "literal_ok a sign g gs b" using a b ok by (simp add: literal_ok_def)
  ultimately show ?thesis using n by blast
qed

section \<open>Quantity normalisation is the fixed mapping\<close>

lemma str_int_eq_one: "str_int i = ''1'' \<longleftrightarrow> i = 1"
proof
  assume "str_int i = ''1''"
  then have "int_of_str (str_int i) = int_of_str ''1''" by simp
  moreover have "int_of_str ''1'' = Some 1" by code_simp
  ultimately show "i = 1" by (simp add: int_of_str_str_int)
next
  assume "i = 1"
  moreover have "str_int 1 = ''1''" by code_simp
  ultimately show "str_int i = ''1''" by simp
qed

lemma str_int_not_sentinel: "str_int i \<noteq> ''>10''"
proof
  assume "str_int i = ''>10''"
  then have "int_of_str (str_int i) = int_of_str ''>10''" by simp
  moreover have "int_of_str ''>10'' = None" by code_simp
  ultimately show False by (simp add: int_of_str_str_int)
qed

lemma digit_char_eval:
  "digit_char 0 = CHR ''0''" "digit_char 1 = CHR ''1''" "digit_char 2 = CHR ''2''"
  "digit_char 3 = CHR ''3''" "digit_char 4 = CHR ''4''" "digit_char 5 = CHR ''5''"
  "digit_char 6 = CHR ''6''" "digit_char 7 = CHR ''7''" "digit_char 8 = CHR ''8''"
  "digit_char 9 = CHR ''9''"
  by code_simp+

lemmas ascii_form_eval = to_ascii_def unicode_decimal_def decimal_zeros_def unicode_spaces_def
  code_point_def is_cont_def cont_bits_def digit_char_eval

text \<open>
  C2: quantity normalisation is a fixed mapping on raw quantity strings. The string
  \<open>">10"\<close> gives 100 and the string \<open>"1"\<close> gives 0. Every other string that denotes an
  integer gives that integer: its ASCII form is white space, an optional sign, groups of
  digits joined by single underscores, and white space (up to the interpreter's default
  limit of 4300 digits). Every other string that denotes no integer raises
  \<open>ValueError\<close>. A string of characters below 127 is its own ASCII form, and an integer cell
  behaves as its numeral.
\<close>

theorem normalize_quantity_mapping:
  "normalize_quantity (PStr ''>10'') = Inr 100
   \<and> normalize_quantity (PStr ''1'') = Inr 0
   \<and> (s \<noteq> ''>10'' \<and> s \<noteq> ''1'' \<and> ascii_form s = Some (int_literal a sign g gs b)
        \<and> literal_ok a sign g gs b \<and> length (g @ concat gs) \<le> 4300 \<longrightarrow>
        normalize_quantity (PStr s) = Inr (literal_value sign g gs))
   \<and> (s \<noteq> ''>10'' \<and> s \<noteq> ''1''
        \<and> \<not> (\<exists>a sign g gs b. ascii_form s = Some (int_literal a sign g gs b)
                  \<and> literal_ok a sign g gs b) \<longrightarrow>
        normalize_quantity (PStr s) = Inl ValueError)
   \<and> ((\<forall>c \<in> set s. (of_char c :: nat) < 127) \<longrightarrow> ascii_form s = Some s)
   \<and> normalize_quantity (PInt i) = Inr (if i = 1 then 0 else i)"
proof (intro conjI impI)
  show "normalize_quantity (PStr ''>10'') = Inr 100" by (simp add: normalize_quantity_def)
  show "normalize_quantity (PStr ''1'') = Inr 0" by (simp add: normalize_quantity_def)
  show "normalize_quantity (PStr s) = Inr (literal_value sign g gs)"
    if h: "s \<noteq> ''>10'' \<and> s \<noteq> ''1'' \<and> ascii_form s = Some (int_literal a sign g gs b)
        \<and> literal_ok a sign g gs b \<and> length (g @ concat gs) \<le> 4300"
  proof -
    from h have "int_of_ascii (int_literal a sign g gs b) = Some (literal_value sign g gs)"
      by (intro int_of_ascii_literal) simp
    with h have "int_of_str s = Some (literal_value sign g gs)" by (simp add: int_of_str_def)
    with h show ?thesis by (simp add: normalize_quantity_def)
  qed
  show "normalize_quantity (PStr s) = Inl ValueError"
    if h: "s \<noteq> ''>10'' \<and> s \<noteq> ''1''
        \<and> \<not> (\<exists>a sign g gs b. ascii_form s = Some (int_literal a sign g gs b)
                  \<and> literal_ok a sign g gs b)"
  proof -
    have "int_of_str s = None"
    proof (cases "int_of_str s")
      case (Some n)
      then obtain t where t: "ascii_form s = Some t" and i: "int_of_ascii t = Some n"
        by (auto simp: int_of_str_def split: option.splits)
      from int_of_ascii_decompose [OF i] t h show ?thesis by blast
    qed simp
    with h show ?thesis by (simp add: normalize_quantity_def)
  qed
  show "ascii_form s = Some s" if "\<forall>c \<in> set s. (of_char c :: nat) < 127"
    using that by (rule ascii_form_ascii)
  show "normalize_quantity (PInt i) = Inr (if i = 1 then 0 else i)"
    by (simp add: normalize_quantity_def str_int_eq_one str_int_not_sentinel)
qed

lemma abc_no_literal:
  "\<not> (\<exists>a sign g gs b. ascii_form ''abc'' = Some (int_literal a sign g gs b) \<and> literal_ok a sign g gs b)"
proof
  assume "\<exists>a sign g gs b. ascii_form ''abc'' = Some (int_literal a sign g gs b) \<and> literal_ok a sign g gs b"
  then obtain a sign g gs b where e: "ascii_form ''abc'' = Some (int_literal a sign g gs b)"
    and ok: "literal_ok a sign g gs b" by blast
  have "ascii_form ''abc'' = Some ''abc''" by simp
  with e have "int_literal a sign g gs b = ''abc''" by simp
  with int_of_ascii_literal [OF ok] have "int_of_ascii ''abc'' = Some (literal_value sign g gs)" by simp
  moreover have "int_of_ascii ''abc'' = None" by code_simp
  ultimately show False by simp
qed

theorem normalize_quantity_mapping_witness:
  "normalize_quantity (PStr '' 42 '') = Inr 42
   \<and> normalize_quantity (PStr ''-1_000'') = Inr (- 1000)
   \<and> normalize_quantity (PStr [CHR 0x35, CHR 0xC2, CHR 0xA0]) = Inr 5
   \<and> normalize_quantity (PStr [CHR 0xEF, CHR 0xBC, CHR 0x94, CHR 0xEF, CHR 0xBC, CHR 0x92]) = Inr 42
   \<and> normalize_quantity (PStr ''abc'') = Inl ValueError
   \<and> ascii_form '' 42 '' = Some '' 42 ''"
proof -
  note t = normalize_quantity_mapping
  have 1: "normalize_quantity (PStr '' 42 '') = Inr 42"
    using t [where s = "'' 42 ''" and a = "'' ''" and sign = "[]" and g = "''42''" and gs = "[]"
               and b = "'' ''"]
    by (simp add: int_literal_def literal_ok_def literal_value_def is_space_def is_digit_def
          decimal_def digit_val_def)
  have 2: "normalize_quantity (PStr ''-1_000'') = Inr (- 1000)"
    using t [where s = "''-1_000''" and a = "[]" and sign = "''-''" and g = "''1''"
               and gs = "[''000'']" and b = "[]"]
    by (simp add: int_literal_def literal_ok_def literal_value_def is_space_def is_digit_def
          decimal_def digit_val_def)
  have 3: "normalize_quantity (PStr [CHR 0x35, CHR 0xC2, CHR 0xA0]) = Inr 5"
    using t [where s = "[CHR 0x35, CHR 0xC2, CHR 0xA0]" and a = "[]" and sign = "[]" and g = "''5''"
               and gs = "[]" and b = "'' ''"]
    by (simp add: int_literal_def literal_ok_def literal_value_def is_space_def is_digit_def
          decimal_def digit_val_def ascii_form_eval)
  have 4: "normalize_quantity (PStr [CHR 0xEF, CHR 0xBC, CHR 0x94, CHR 0xEF, CHR 0xBC, CHR 0x92]) = Inr 42"
    using t [where s = "[CHR 0xEF, CHR 0xBC, CHR 0x94, CHR 0xEF, CHR 0xBC, CHR 0x92]" and a = "[]"
               and sign = "[]" and g = "''42''" and gs = "[]" and b = "[]"]
    by (simp add: int_literal_def literal_ok_def literal_value_def is_space_def is_digit_def
          decimal_def digit_val_def ascii_form_eval)
  have 5: "normalize_quantity (PStr ''abc'') = Inl ValueError"
    using t [where s = "''abc''"] abc_no_literal by simp
  have 6: "ascii_form '' 42 '' = Some '' 42 ''"
    using t [where s = "'' 42 ''"] by simp
  from 1 2 3 4 5 6 show ?thesis by simp
qed

section \<open>Stock reconciliation\<close>

lemma seller_loop_acc:
  "seller_create_stocks_loop ws st ids =
     (case seller_create_stocks_loop ws [] ids of Inl e \<Rightarrow> Inl e | Inr (m, r) \<Rightarrow> Inr (st @ m, r))"
proof (induction ws arbitrary: st ids)
  case Nil show ?case by simp
next
  case (Cons w ws)
  show ?case
  proof (cases "py_str (Kod w) \<in> set ids")
    case False
    then show ?thesis using Cons [of st ids] by simp
  next
    case True
    show ?thesis
    proof (cases "normalize_quantity (Kolichestvo w)")
      case (Inl e) with True show ?thesis by simp
    next
      case (Inr n)
      let ?r = "\<lparr>offer_id = py_str (Kod w), stock = n\<rparr>"
      let ?ids = "remove1 (py_str (Kod w)) ids"
      have a: "seller_create_stocks_loop (w # ws) st ids = seller_create_stocks_loop ws (st @ [?r]) ?ids"
        using True Inr by simp
      have b: "seller_create_stocks_loop (w # ws) [] ids = seller_create_stocks_loop ws [?r] ?ids"
        using True Inr by simp
      show ?thesis unfolding a b
        by (subst Cons [of "st @ [?r]"], subst Cons [of "[?r]"]) (simp split: sum.splits prod.splits)
    qed
  qed
qed

lemma seller_loop_cons_matched:
  assumes "watch_code w \<in> set ids" and "normalize_quantity (Kolichestvo w) = Inr n"
  shows "seller_create_stocks_loop (w # ws) [] ids =
     (case seller_create_stocks_loop ws [] (remove1 (watch_code w) ids) of Inl e \<Rightarrow> Inl e
      | Inr (m, r) \<Rightarrow> Inr (\<lparr>offer_id = watch_code w, stock = n\<rparr> # m, r))"
proof -
  have "seller_create_stocks_loop (w # ws) [] ids
      = seller_create_stocks_loop ws [\<lparr>offer_id = watch_code w, stock = n\<rparr>] (remove1 (watch_code w) ids)"
    using assms by (simp add: watch_code_def)
  also have "\<dots> = (case seller_create_stocks_loop ws [] (remove1 (watch_code w) ids) of Inl e \<Rightarrow> Inl e
      | Inr (m, r) \<Rightarrow> Inr ([\<lparr>offer_id = watch_code w, stock = n\<rparr>] @ m, r))"
    by (rule seller_loop_acc)
  finally show ?thesis unfolding append_Cons append_Nil .
qed

lemma seller_loop_result:
  assumes "seller_create_stocks_loop ws [] ids = Inr (m, r)"
  shows "list_all2 (\<lambda>w s. offer_id s = watch_code w \<and> normalize_quantity (Kolichestvo w) = Inr (stock s))
           (matched_watches ws ids) m
         \<and> r = fold (\<lambda>w. remove1 (watch_code w)) ws ids"
  using assms
proof (induction ws arbitrary: ids m)
  case Nil then show ?case by simp
next
  case (Cons w ws)
  show ?case
  proof (cases "watch_code w \<in> set ids")
    case False
    then have "seller_create_stocks_loop ws [] ids = Inr (m, r)"
      using Cons.prems by (simp add: watch_code_def)
    from Cons.IH [OF this] False show ?thesis by (simp add: remove1_idem)
  next
    case True
    show ?thesis
    proof (cases "normalize_quantity (Kolichestvo w)")
      case (Inl e) with True Cons.prems show ?thesis by (simp add: watch_code_def)
    next
      case (Inr n)
      from Cons.prems obtain m' where m': "seller_create_stocks_loop ws [] (remove1 (watch_code w) ids) = Inr (m', r)"
        and m: "m = \<lparr>offer_id = watch_code w, stock = n\<rparr> # m'"
        unfolding seller_loop_cons_matched [OF True Inr] by (auto split: sum.splits prod.splits)
      from Cons.IH [OF m'] True Inr show ?thesis by (simp add: m)
    qed
  qed
qed

lemma seller_loop_returns:
  "(\<exists>res. seller_create_stocks_loop ws [] ids = Inr res)
     \<longleftrightarrow> (\<forall>w \<in> set (matched_watches ws ids). \<exists>n. normalize_quantity (Kolichestvo w) = Inr n)"
proof (induction ws arbitrary: ids)
  case Nil show ?case by simp
next
  case (Cons w ws)
  show ?case
  proof (cases "watch_code w \<in> set ids")
    case False
    then show ?thesis using Cons [of ids] by (simp add: watch_code_def)
  next
    case True
    show ?thesis
    proof (cases "normalize_quantity (Kolichestvo w)")
      case (Inl e) with True show ?thesis by (auto simp: watch_code_def)
    next
      case (Inr n)
      show ?thesis unfolding seller_loop_cons_matched [OF True Inr]
        using True Inr Cons [of "remove1 (watch_code w) ids"]
        by (auto split: sum.splits prod.splits)
    qed
  qed
qed

lemma remaining_mset:
  "mset (fold (\<lambda>w. remove1 (watch_code w)) ws ids) = mset ids - mset (map watch_code ws)"
  by (induction ws arbitrary: ids) simp_all

lemma subseq_remove1: "subseq (remove1 x xs) xs"
  by (induction xs) auto

lemma remaining_subseq: "subseq (fold (\<lambda>w. remove1 (watch_code w)) ws ids) ids"
proof (induction ws arbitrary: ids)
  case Nil show ?case by simp
next
  case (Cons w ws)
  have "subseq (fold (\<lambda>w. remove1 (watch_code w)) ws (remove1 (watch_code w) ids)) (remove1 (watch_code w) ids)"
    by (rule Cons)
  then show ?case using subseq_remove1 [of "watch_code w" ids] by (simp add: subseq_order.order_trans)
qed

lemma filter_neq_absent: "x \<notin> set xs \<Longrightarrow> filter (\<lambda>i. i \<noteq> x) xs = xs"
  by (induction xs) auto

lemma remove1_distinct_filter: "distinct xs \<Longrightarrow> remove1 x xs = filter (\<lambda>i. i \<noteq> x) xs"
  by (induction xs) (auto simp: filter_neq_absent)

lemma remaining_distinct:
  "distinct ids \<Longrightarrow>
     fold (\<lambda>w. remove1 (watch_code w)) ws ids = filter (\<lambda>i. i \<notin> watch_code ` set ws) ids"
proof (induction ws arbitrary: ids)
  case Nil show ?case by simp
next
  case (Cons w ws)
  have d: "distinct (remove1 (watch_code w) ids)" using Cons.prems by simp
  have "remove1 (watch_code w) ids = filter (\<lambda>i. i \<noteq> watch_code w) ids"
    using Cons.prems by (rule remove1_distinct_filter)
  then show ?case using Cons.IH [OF d] by (simp add: conj_commute)
qed

lemma matched_subseq: "subseq (matched_watches ws ids) ws"
  by (induction ws arbitrary: ids) auto

lemma matched_mset:
  "mset (map watch_code (matched_watches ws ids)) + mset (fold (\<lambda>w. remove1 (watch_code w)) ws ids)
     = mset ids"
proof (induction ws arbitrary: ids)
  case Nil show ?case by simp
next
  case (Cons w ws)
  show ?case
  proof (cases "watch_code w \<in> set ids")
    case True
    then show ?thesis using Cons [of "remove1 (watch_code w) ids"] by simp
  next
    case False
    then show ?thesis using Cons [of ids] by (simp add: remove1_idem)
  qed
qed

lemma matched_inter:
  "mset (map watch_code (matched_watches ws ids)) = mset ids \<inter># mset (map watch_code ws)"
proof -
  let ?X = "mset (map watch_code (matched_watches ws ids))"
  let ?R = "mset ids - mset (map watch_code ws)"
  have "?X + ?R = mset ids" using matched_mset [of ws ids] by (simp only: remaining_mset)
  then have "mset ids - ?R = ?X + ?R - ?R" by simp
  also have "\<dots> = ?X" by (rule add_diff_cancel_right')
  finally show ?thesis by (simp only: inter_mset_def)
qed

lemma market_loop_as_seller:
  "market_create_stocks_loop date wh ws (map (\<lambda>s. market_stock_dict date wh (offer_id s) (stock s)) st) ids
     = (case seller_create_stocks_loop ws st ids of Inl e \<Rightarrow> Inl e
        | Inr (m, r) \<Rightarrow> Inr (map (\<lambda>s. market_stock_dict date wh (offer_id s) (stock s)) m, r))"
proof (induction ws arbitrary: st ids)
  case Nil show ?case by simp
next
  case (Cons w ws)
  show ?case
  proof (cases "py_str (Kod w) \<in> set ids")
    case False then show ?thesis using Cons [of st ids] by simp
  next
    case True
    show ?thesis
    proof (cases "normalize_quantity (Kolichestvo w)")
      case (Inl e) with True show ?thesis by simp
    next
      case (Inr n)
      show ?thesis using True Inr Cons [of "st @ [\<lparr>offer_id = py_str (Kod w), stock = n\<rparr>]" "remove1 (py_str (Kod w)) ids"]
        by simp
    qed
  qed
qed

lemma market_as_seller:
  "market_create_stocks date ws ids wh
     = (case seller_create_stocks ws ids of Inl e \<Rightarrow> Inl e
        | Inr (out, r) \<Rightarrow> Inr (map (\<lambda>s. market_stock_dict date wh (offer_id s) (stock s)) out, r))"
  unfolding market_create_stocks_def seller_create_stocks_def
  using market_loop_as_seller [of date wh ws "[]" ids]
  by (simp add: o_def split: sum.splits prod.splits)

lemma seller_create_stocks_result:
  assumes "seller_create_stocks ws ids = Inr (out, r)"
  shows "\<exists>m. out = m @ map (\<lambda>oid. \<lparr>offer_id = oid, stock = 0\<rparr>) r
           \<and> list_all2 (\<lambda>w s. offer_id s = watch_code w \<and> normalize_quantity (Kolichestvo w) = Inr (stock s))
                (matched_watches ws ids) m"
    and "r = fold (\<lambda>w. remove1 (watch_code w)) ws ids"
proof -
  from assms obtain m where m: "seller_create_stocks_loop ws [] ids = Inr (m, r)"
    and out: "out = m @ map (\<lambda>oid. \<lparr>offer_id = oid, stock = 0\<rparr>) r"
    unfolding seller_create_stocks_def by (auto split: sum.splits prod.splits)
  from seller_loop_result [OF m] out
  show "\<exists>m. out = m @ map (\<lambda>oid. \<lparr>offer_id = oid, stock = 0\<rparr>) r
           \<and> list_all2 (\<lambda>w s. offer_id s = watch_code w \<and> normalize_quantity (Kolichestvo w) = Inr (stock s))
                (matched_watches ws ids) m"
    by blast
  from seller_loop_result [OF m] show "r = fold (\<lambda>w. remove1 (watch_code w)) ws ids" by simp
qed

lemma matched_codes:
  "list_all2 (\<lambda>w s. offer_id s = watch_code w \<and> Q w s) ms m \<Longrightarrow> map offer_id m = map watch_code ms"
  by (induction ms m rule: list_all2_induct) simp_all

lemma seller_create_stocks_ids:
  assumes "seller_create_stocks ws ids = Inr (out, r)"
  shows "mset (map offer_id out) = mset ids"
proof -
  from seller_create_stocks_result [OF assms] obtain m
    where out: "out = m @ map (\<lambda>oid. \<lparr>offer_id = oid, stock = 0\<rparr>) r"
      and m: "list_all2 (\<lambda>w s. offer_id s = watch_code w \<and> normalize_quantity (Kolichestvo w) = Inr (stock s))
                (matched_watches ws ids) m"
      and r: "r = fold (\<lambda>w. remove1 (watch_code w)) ws ids"
    by blast
  have "map offer_id out = map watch_code (matched_watches ws ids) @ r"
    unfolding out using matched_codes [OF m] by (simp add: o_def)
  then show ?thesis using matched_mset [of ws ids] r by simp
qed

lemma seller_create_stocks_returns:
  "(\<exists>res. seller_create_stocks ws ids = Inr res)
     \<longleftrightarrow> (\<forall>w \<in> set (matched_watches ws ids). \<exists>n. normalize_quantity (Kolichestvo w) = Inr n)"
  unfolding seller_loop_returns [symmetric] seller_create_stocks_def
  by (auto split: sum.splits prod.splits)

lemma seller_prices_acc:
  "seller_create_prices_loop ws ps ids =
     (case seller_create_prices_loop ws [] ids of Inl e \<Rightarrow> Inl e | Inr (m, r) \<Rightarrow> Inr (ps @ m, r))"
proof (induction ws arbitrary: ps)
  case Nil show ?case by simp
next
  case (Cons w ws)
  show ?case
  proof (cases "py_str (Kod w) \<in> set ids")
    case False
    then show ?thesis using Cons [of ps] by simp
  next
    case True
    show ?thesis
    proof (cases "price_conversion (Tsena w)")
      case (Inl e) with True show ?thesis by simp
    next
      case (Inr p)
      let ?r = "\<lparr>auto_action_enabled = ''UNKNOWN'', currency_code = ''RUB'',
                  price_offer_id = py_str (Kod w), old_price = ''0'', price = p\<rparr>"
      have a: "seller_create_prices_loop (w # ws) ps ids = seller_create_prices_loop ws (ps @ [?r]) ids"
        using True Inr by simp
      have b: "seller_create_prices_loop (w # ws) [] ids = seller_create_prices_loop ws [?r] ids"
        using True Inr by simp
      show ?thesis unfolding a b
        by (subst Cons [of "ps @ [?r]"], subst Cons [of "[?r]"]) (simp split: sum.splits prod.splits)
    qed
  qed
qed

lemma seller_prices_result:
  assumes "seller_create_prices_loop ws [] ids = Inr (ps, r)"
  shows "r = ids \<and> list_all2 seller_price_of (filter (\<lambda>w. watch_code w \<in> set ids) ws) ps"
  using assms
proof (induction ws arbitrary: ps)
  case Nil then show ?case by simp
next
  case (Cons w ws)
  show ?case
  proof (cases "watch_code w \<in> set ids")
    case False
    then have "seller_create_prices_loop ws [] ids = Inr (ps, r)"
      using Cons.prems by (simp add: watch_code_def)
    from Cons.IH [OF this] False show ?thesis by simp
  next
    case True
    show ?thesis
    proof (cases "price_conversion (Tsena w)")
      case (Inl e) with True Cons.prems show ?thesis by (simp add: watch_code_def)
    next
      case (Inr p)
      let ?r = "\<lparr>auto_action_enabled = ''UNKNOWN'', currency_code = ''RUB'',
                  price_offer_id = watch_code w, old_price = ''0'', price = p\<rparr>"
      have "seller_create_prices_loop (w # ws) [] ids = seller_create_prices_loop ws [?r] ids"
        using True Inr by (simp add: watch_code_def)
      also have "\<dots> = (case seller_create_prices_loop ws [] ids of Inl e \<Rightarrow> Inl e
                       | Inr (m, r) \<Rightarrow> Inr ([?r] @ m, r))"
        by (rule seller_prices_acc)
      finally obtain m where m: "seller_create_prices_loop ws [] ids = Inr (m, r)" and ps: "ps = ?r # m"
        using Cons.prems by (auto split: sum.splits prod.splits)
      from Cons.IH [OF m] True Inr show ?thesis by (simp add: ps seller_price_of_def)
    qed
  qed
qed

lemma seller_prices_returns:
  "(\<exists>res. seller_create_prices_loop ws [] ids = Inr res)
     \<longleftrightarrow> (\<forall>w \<in> set ws. watch_code w \<in> set ids \<longrightarrow> (\<exists>s. Tsena w = PStr s))"
proof (induction ws)
  case Nil show ?case by simp
next
  case (Cons w ws)
  show ?case
  proof (cases "watch_code w \<in> set ids")
    case False
    then show ?thesis using Cons by (simp add: watch_code_def)
  next
    case True
    show ?thesis
    proof (cases "Tsena w")
      case (PStr s)
      let ?r = "\<lparr>auto_action_enabled = ''UNKNOWN'', currency_code = ''RUB'',
                  price_offer_id = py_str (Kod w), old_price = ''0'',
                  price = filter is_digit (takeWhile (\<lambda>c. c \<noteq> CHR ''.'') s)\<rparr>"
      have "seller_create_prices_loop (w # ws) [] ids = seller_create_prices_loop ws [?r] ids"
        using True PStr by (simp add: watch_code_def price_conversion_str del: price_conversion.simps)
      also have "\<dots> = (case seller_create_prices_loop ws [] ids of Inl e \<Rightarrow> Inl e
                       | Inr (m, r) \<Rightarrow> Inr ([?r] @ m, r))"
        by (rule seller_prices_acc)
      finally show ?thesis using Cons True PStr by (auto split: sum.splits prod.splits)
    next
      case (PInt i) with True show ?thesis by (auto simp: watch_code_def)
    next
      case PNone with True show ?thesis by (auto simp: watch_code_def)
    qed
  qed
qed

lemma seller_prices_none:
  "\<forall>w \<in> set ws. watch_code w \<notin> set ids \<Longrightarrow> seller_create_prices_loop ws [] ids = Inr ([], ids)"
  by (induction ws) (simp_all add: watch_code_def)

lemma price_conversion_digits_of:
  "price_conversion (Tsena w) = (case price_digits w of None \<Rightarrow> Inl AttributeError | Some d \<Rightarrow> Inr d)"
proof (cases "Tsena w")
  case (PStr s)
  then show ?thesis by (simp add: price_digits_def price_conversion_str del: price_conversion.simps)
qed (simp_all add: price_digits_def)

lemma py_int_digits:
  "py_int (PStr (filter is_digit s)) =
     (if filter is_digit s = [] then Inl ValueError else Inr (int (decimal 0 (filter is_digit s))))"
proof (cases "filter is_digit s = []")
  case True
  have "int_of_str [] = None" by (rule int_of_str_empty)
  with True show ?thesis by simp
next
  case False
  have "int_of_str (filter is_digit s) = Some (int (decimal 0 (filter is_digit s)))"
    using False by (intro int_of_str_digits) simp_all
  with False show ?thesis by simp
qed

lemma market_step:
  "market_create_prices_loop (w # ws) ps ids =
     (if watch_code w \<in> set ids then
        (case price_digits w of
           None \<Rightarrow> Inl AttributeError
         | Some d \<Rightarrow>
             if d = [] then Inl ValueError
             else market_create_prices_loop ws
                    (ps @ [\<lparr>price_id = watch_code w,
                             price_dict = \<lparr>price_value = int (decimal 0 d), currencyId = ''RUR''\<rparr>\<rparr>]) ids)
      else market_create_prices_loop ws ps ids)"
proof (cases "Tsena w")
  case (PStr s)
  then have d: "price_digits w = Some (filter is_digit (takeWhile (\<lambda>c. c \<noteq> CHR ''.'') s))"
    by (simp add: price_digits_def)
  show ?thesis
    unfolding market_create_prices_loop.simps price_conversion_digits_of d
    by (simp add: py_int_digits watch_code_def del: py_int.simps)
next
  case (PInt i) then show ?thesis by (simp add: price_digits_def watch_code_def)
next
  case PNone then show ?thesis by (simp add: price_digits_def watch_code_def)
qed

lemma market_prices_acc:
  "market_create_prices_loop ws ps ids =
     (case market_create_prices_loop ws [] ids of Inl e \<Rightarrow> Inl e | Inr (m, r) \<Rightarrow> Inr (ps @ m, r))"
proof (induction ws arbitrary: ps)
  case Nil show ?case by simp
next
  case (Cons w ws)
  show ?case
  proof (cases "watch_code w \<in> set ids")
    case False
    then show ?thesis unfolding market_step using Cons [of ps] by simp
  next
    case True
    show ?thesis
    proof (cases "price_digits w")
      case None with True show ?thesis unfolding market_step by simp
    next
      case (Some d)
      let ?r = "\<lparr>price_id = watch_code w,
                  price_dict = \<lparr>price_value = int (decimal 0 d), currencyId = ''RUR''\<rparr>\<rparr>"
      show ?thesis
      proof (cases "d = []")
        case True with Some \<open>watch_code w \<in> set ids\<close> show ?thesis unfolding market_step by simp
      next
        case False
        have a: "market_create_prices_loop (w # ws) ps ids = market_create_prices_loop ws (ps @ [?r]) ids"
          unfolding market_step using True Some False by simp
        have b: "market_create_prices_loop (w # ws) [] ids = market_create_prices_loop ws [?r] ids"
          unfolding market_step using True Some False by simp
        show ?thesis unfolding a b
          by (subst Cons [of "ps @ [?r]"], subst Cons [of "[?r]"]) (simp split: sum.splits prod.splits)
      qed
    qed
  qed
qed

lemma market_step_nil:
  "market_create_prices_loop (w # ws) [] ids =
     (if watch_code w \<in> set ids then
        (case price_digits w of
           None \<Rightarrow> Inl AttributeError
         | Some d \<Rightarrow>
             if d = [] then Inl ValueError
             else (case market_create_prices_loop ws [] ids of Inl e \<Rightarrow> Inl e
                   | Inr (m, r) \<Rightarrow>
                       Inr (\<lparr>price_id = watch_code w,
                             price_dict = \<lparr>price_value = int (decimal 0 d), currencyId = ''RUR''\<rparr>\<rparr> # m, r)))
      else market_create_prices_loop ws [] ids)"
  by (simp add: market_step market_prices_acc [of _ "[x]" _ for x]
           del: market_create_prices_loop.simps split: option.splits sum.splits prod.splits)

lemma market_price_of_made:
  "price_digits w = Some d \<Longrightarrow> d \<noteq> [] \<Longrightarrow>
     market_price_of w \<lparr>price_id = watch_code w,
        price_dict = \<lparr>price_value = int (decimal 0 d), currencyId = ''RUR''\<rparr>\<rparr>"
  by (simp add: market_price_of_def price_conversion_digits_of)

lemma market_prices_result:
  assumes "market_create_prices_loop ws [] ids = Inr (ps, r)"
  shows "r = ids \<and> list_all2 market_price_of (filter (\<lambda>w. watch_code w \<in> set ids) ws) ps"
  using assms
proof (induction ws arbitrary: ps)
  case Nil then show ?case by simp
next
  case (Cons w ws)
  from Cons.prems show ?case unfolding market_step_nil
    by (auto split: if_splits option.splits sum.splits prod.splits
             simp: market_price_of_made dest!: Cons.IH)
qed

lemma market_prices_returns:
  "(\<exists>res. market_create_prices_loop ws [] ids = Inr res)
     \<longleftrightarrow> (\<forall>w \<in> set ws. watch_code w \<in> set ids \<longrightarrow> (\<exists>d. price_digits w = Some d \<and> d \<noteq> []))"
proof (induction ws)
  case Nil show ?case by simp
next
  case (Cons w ws)
  show ?case unfolding market_step_nil using Cons
    by (auto split: option.splits sum.splits prod.splits)
qed

lemma price_digits_str: "(\<exists>s. Tsena w = PStr s) \<longleftrightarrow> price_digits w \<noteq> None"
  by (cases "Tsena w") (simp_all add: price_digits_def)

lemma sku_dict: "map sku (map (\<lambda>s. market_stock_dict date wh (offer_id s) (stock s)) out) = map offer_id out"
  by (simp add: market_stock_dict_def o_def)

lemma prices_codes:
  "list_all2 seller_price_of (filter (\<lambda>w. watch_code w \<in> set ids) ws) ps \<Longrightarrow>
     set (map price_offer_id ps) = set ids \<inter> watch_code ` set ws"
proof -
  assume a: "list_all2 seller_price_of (filter (\<lambda>w. watch_code w \<in> set ids) ws) ps"
  have "list_all2 (\<lambda>w p. price_offer_id p = watch_code w) (filter (\<lambda>w. watch_code w \<in> set ids) ws) ps"
    using a by (rule list_all2_mono) (simp add: seller_price_of_def)
  then have "map price_offer_id ps = map watch_code (filter (\<lambda>w. watch_code w \<in> set ids) ws)"
    by (induction rule: list_all2_induct) simp_all
  then show ?thesis by auto
qed

lemma market_prices_codes:
  "list_all2 market_price_of (filter (\<lambda>w. watch_code w \<in> set ids) ws) ps \<Longrightarrow>
     set (map price_id ps) = set ids \<inter> watch_code ` set ws"
proof -
  assume a: "list_all2 market_price_of (filter (\<lambda>w. watch_code w \<in> set ids) ws) ps"
  have "list_all2 (\<lambda>w p. price_id p = watch_code w) (filter (\<lambda>w. watch_code w \<in> set ids) ws) ps"
    using a by (rule list_all2_mono) (simp add: market_price_of_def)
  then have "map price_id ps = map watch_code (filter (\<lambda>w. watch_code w \<in> set ids) ws)"
    by (induction rule: list_all2_induct) simp_all
  then show ?thesis by auto
qed

lemma seller_stocks_shape:
  assumes "seller_create_stocks ws ids = Inr (out, r)"
  shows "mset (map offer_id out) = mset ids
     \<and> (distinct ids \<longrightarrow> distinct (map offer_id out) \<and> set (map offer_id out) = set ids)
     \<and> (\<exists>m. out = m @ map (\<lambda>oid. \<lparr>offer_id = oid, stock = 0\<rparr>) r
            \<and> list_all2 (\<lambda>w s. offer_id s = watch_code w \<and> normalize_quantity (Kolichestvo w) = Inr (stock s))
                 (matched_watches ws ids) m)
     \<and> subseq (matched_watches ws ids) ws \<and> subseq r ids"
proof -
  have 1: "mset (map offer_id out) = mset ids" by (rule seller_create_stocks_ids [OF assms])
  have 2: "distinct ids \<longrightarrow> distinct (map offer_id out) \<and> set (map offer_id out) = set ids"
    using mset_eq_imp_distinct_iff [OF 1] mset_eq_setD [OF 1] by simp
  have 3: "subseq r ids"
    unfolding seller_create_stocks_result(2) [OF assms] by (rule remaining_subseq)
  from 1 2 3 seller_create_stocks_result(1) [OF assms] matched_subseq show ?thesis by blast
qed

lemma market_stocks_shape:
  assumes b: "market_create_stocks date ws ids wh = Inr (mout, mr)"
  shows "mset (map sku mout) = mset ids
      \<and> (distinct ids \<longrightarrow> distinct (map sku mout) \<and> set (map sku mout) = set ids)
      \<and> (\<exists>m :: seller_stock list. mout = map (\<lambda>s. market_stock_dict date wh (offer_id s) (stock s)) m
                     @ map (\<lambda>oid. market_stock_dict date wh oid 0) mr
             \<and> list_all2 (\<lambda>w s. offer_id s = watch_code w \<and> normalize_quantity (Kolichestvo w) = Inr (stock s))
                  (matched_watches ws ids) m)
      \<and> subseq mr ids"
proof -
  from b obtain out where a: "seller_create_stocks ws ids = Inr (out, mr)"
    and mout: "mout = map (\<lambda>s. market_stock_dict date wh (offer_id s) (stock s)) out"
    unfolding market_as_seller by (auto split: sum.splits prod.splits)
  have sk: "map sku mout = map offer_id out" unfolding mout by (rule sku_dict)
  from seller_stocks_shape [OF a] obtain m
    where o: "out = m @ map (\<lambda>oid. \<lparr>offer_id = oid, stock = 0\<rparr>) mr"
      and m: "list_all2 (\<lambda>w s. offer_id s = watch_code w \<and> normalize_quantity (Kolichestvo w) = Inr (stock s))
                  (matched_watches ws ids) m"
    by blast
  have mm: "mout = map (\<lambda>s. market_stock_dict date wh (offer_id s) (stock s)) m
                     @ map (\<lambda>oid. market_stock_dict date wh oid 0) mr"
    unfolding mout o by (simp add: o_def)
  have 3: "\<exists>m :: seller_stock list. mout = map (\<lambda>s. market_stock_dict date wh (offer_id s) (stock s)) m
                     @ map (\<lambda>oid. market_stock_dict date wh oid 0) mr
             \<and> list_all2 (\<lambda>w s. offer_id s = watch_code w \<and> normalize_quantity (Kolichestvo w) = Inr (stock s))
                  (matched_watches ws ids) m"
    by (rule exI [of _ m]) (rule conjI [OF mm m])
  from seller_stocks_shape [OF a] have 1: "mset (map sku mout) = mset ids"
    and 2: "distinct ids \<longrightarrow> distinct (map sku mout) \<and> set (map sku mout) = set ids"
    and 4: "subseq mr ids"
    unfolding sk by blast+
  from 1 2 3 4 show ?thesis by blast
qed

text \<open>
  C1 (as amended): whenever \<open>create_stocks\<close> returns, the offer ids of the returned list
  are, with multiplicity, exactly those of the input offer-id list, so with no additions
  and no omissions, and each exactly once when the input list has no duplicates. The
  list is the records of the matched inventory records, in inventory order, followed by
  a zero record for each id left, in listing order. This holds for \<open>seller.py\<close> and for
  \<open>market.py\<close>; the call returns exactly when \<open>int\<close> accepts the quantity of every
  matched record.
\<close>

theorem create_stocks_covers_offer_ids:
  "(seller_create_stocks ws ids = Inr (out, r) \<longrightarrow>
      mset (map offer_id out) = mset ids
      \<and> (distinct ids \<longrightarrow> distinct (map offer_id out) \<and> set (map offer_id out) = set ids)
      \<and> (\<exists>m. out = m @ map (\<lambda>oid. \<lparr>offer_id = oid, stock = 0\<rparr>) r
             \<and> list_all2 (\<lambda>w s. offer_id s = watch_code w \<and> normalize_quantity (Kolichestvo w) = Inr (stock s))
                  (matched_watches ws ids) m)
      \<and> subseq (matched_watches ws ids) ws \<and> subseq r ids)
   \<and> (market_create_stocks date ws ids wh = Inr (mout, mr) \<longrightarrow>
      mset (map sku mout) = mset ids
      \<and> (distinct ids \<longrightarrow> distinct (map sku mout) \<and> set (map sku mout) = set ids)
      \<and> (\<exists>m :: seller_stock list. mout = map (\<lambda>s. market_stock_dict date wh (offer_id s) (stock s)) m
                     @ map (\<lambda>oid. market_stock_dict date wh oid 0) mr
             \<and> list_all2 (\<lambda>w s. offer_id s = watch_code w \<and> normalize_quantity (Kolichestvo w) = Inr (stock s))
                  (matched_watches ws ids) m)
      \<and> subseq mr ids)
   \<and> ((\<exists>res. seller_create_stocks ws ids = Inr res)
        \<longleftrightarrow> (\<forall>w \<in> set (matched_watches ws ids). \<exists>n. normalize_quantity (Kolichestvo w) = Inr n))
   \<and> ((\<exists>res. market_create_stocks date ws ids wh = Inr res)
        \<longleftrightarrow> (\<exists>res. seller_create_stocks ws ids = Inr res))"
proof -
  have S: "seller_create_stocks ws ids = Inr (out, r) \<longrightarrow>
      mset (map offer_id out) = mset ids
      \<and> (distinct ids \<longrightarrow> distinct (map offer_id out) \<and> set (map offer_id out) = set ids)
      \<and> (\<exists>m. out = m @ map (\<lambda>oid. \<lparr>offer_id = oid, stock = 0\<rparr>) r
             \<and> list_all2 (\<lambda>w s. offer_id s = watch_code w \<and> normalize_quantity (Kolichestvo w) = Inr (stock s))
                  (matched_watches ws ids) m)
      \<and> subseq (matched_watches ws ids) ws \<and> subseq r ids"
    using seller_stocks_shape by (rule impI)
  have M: "market_create_stocks date ws ids wh = Inr (mout, mr) \<longrightarrow>
      mset (map sku mout) = mset ids
      \<and> (distinct ids \<longrightarrow> distinct (map sku mout) \<and> set (map sku mout) = set ids)
      \<and> (\<exists>m :: seller_stock list. mout = map (\<lambda>s. market_stock_dict date wh (offer_id s) (stock s)) m
                     @ map (\<lambda>oid. market_stock_dict date wh oid 0) mr
             \<and> list_all2 (\<lambda>w s. offer_id s = watch_code w \<and> normalize_quantity (Kolichestvo w) = Inr (stock s))
                  (matched_watches ws ids) m)
      \<and> subseq mr ids"
    using market_stocks_shape by (rule impI)
  have R1: "(\<exists>res. seller_create_stocks ws ids = Inr res)
        \<longleftrightarrow> (\<forall>w \<in> set (matched_watches ws ids). \<exists>n. normalize_quantity (Kolichestvo w) = Inr n)"
    by (rule seller_create_stocks_returns)
  have R2: "(\<exists>res. market_create_stocks date ws ids wh = Inr res)
        \<longleftrightarrow> (\<exists>res. seller_create_stocks ws ids = Inr res)"
    unfolding market_as_seller by (auto split: sum.splits prod.splits)
  show ?thesis by (rule conjI [OF S conjI [OF M conjI [OF R1 R2]]])
qed

lemma example_seller_stocks:
  "seller_create_stocks example_watches example_offer_ids
     = Inr ([\<lparr>offer_id = ''A1'', stock = 100\<rparr>, \<lparr>offer_id = ''A2'', stock = 0\<rparr>,
             \<lparr>offer_id = ''A3'', stock = 0\<rparr>], [''A3''])"
  by (simp add: seller_create_stocks_def example_watches_def example_offer_ids_def normalize_quantity_def)

lemma example_market_stocks:
  "market_create_stocks ''2023-07-09T17:37:34Z'' example_watches example_offer_ids ''104564''
     = Inr ([market_stock_dict ''2023-07-09T17:37:34Z'' ''104564'' ''A1'' 100,
             market_stock_dict ''2023-07-09T17:37:34Z'' ''104564'' ''A2'' 0,
             market_stock_dict ''2023-07-09T17:37:34Z'' ''104564'' ''A3'' 0], [''A3''])"
  by (simp add: market_create_stocks_def example_watches_def example_offer_ids_def normalize_quantity_def)

theorem create_stocks_covers_offer_ids_witness:
  "seller_create_stocks example_watches example_offer_ids
     = Inr ([\<lparr>offer_id = ''A1'', stock = 100\<rparr>, \<lparr>offer_id = ''A2'', stock = 0\<rparr>,
             \<lparr>offer_id = ''A3'', stock = 0\<rparr>], [''A3''])
   \<and> market_create_stocks ''2023-07-09T17:37:34Z'' example_watches example_offer_ids ''104564''
     = Inr ([market_stock_dict ''2023-07-09T17:37:34Z'' ''104564'' ''A1'' 100,
             market_stock_dict ''2023-07-09T17:37:34Z'' ''104564'' ''A2'' 0,
             market_stock_dict ''2023-07-09T17:37:34Z'' ''104564'' ''A3'' 0], [''A3''])
   \<and> distinct example_offer_ids
   \<and> set (map offer_id [\<lparr>offer_id = ''A1'', stock = 100\<rparr>, \<lparr>offer_id = ''A2'', stock = 0\<rparr>,
             \<lparr>offer_id = ''A3'', stock = 0\<rparr>]) = set example_offer_ids
   \<and> subseq [''A3''] example_offer_ids"
proof -
  have d: "distinct example_offer_ids" by (simp add: example_offer_ids_def)
  from create_stocks_covers_offer_ids
         [where ws = example_watches and ids = example_offer_ids
            and out = "[\<lparr>offer_id = ''A1'', stock = 100\<rparr>, \<lparr>offer_id = ''A2'', stock = 0\<rparr>,
                        \<lparr>offer_id = ''A3'', stock = 0\<rparr>]"
            and r = "[''A3'']" and date = "''2023-07-09T17:37:34Z''" and wh = "''104564''"
            and mout = "[market_stock_dict ''2023-07-09T17:37:34Z'' ''104564'' ''A1'' 100,
                         market_stock_dict ''2023-07-09T17:37:34Z'' ''104564'' ''A2'' 0,
                         market_stock_dict ''2023-07-09T17:37:34Z'' ''104564'' ''A3'' 0]"
            and mr = "[''A3'']"]
    example_seller_stocks example_market_stocks d
  show ?thesis by blast
qed

text \<open>C1 as stated fails on a listing with a duplicate: the id appears twice.\<close>

theorem create_stocks_duplicate_ids_counterexample:
  "seller_create_stocks [] [''A'', ''A'']
     = Inr ([\<lparr>offer_id = ''A'', stock = 0\<rparr>, \<lparr>offer_id = ''A'', stock = 0\<rparr>], [''A'', ''A''])"
  by (simp add: seller_create_stocks_def)

section \<open>Running the reconciliation twice\<close>

lemma redate_dict: "redate d2 (market_stock_dict d1 wh c n) = market_stock_dict d2 wh c n"
  by (simp add: redate_def market_stock_dict_def)

lemma dict_date_inj: "market_stock_dict d1 wh c n = market_stock_dict d2 wh c n \<longleftrightarrow> d1 = d2"
  by (auto simp: market_stock_dict_def)

lemma redate_map:
  "map (redate d2) (map (\<lambda>s. market_stock_dict d1 wh (offer_id s) (stock s)) out)
     = map (\<lambda>s. market_stock_dict d2 wh (offer_id s) (stock s)) out"
  by (simp add: redate_dict o_def)

lemma dict_map_eq:
  "map (\<lambda>s. market_stock_dict d2 wh (offer_id s) (stock s)) out
     = map (\<lambda>s. market_stock_dict d1 wh (offer_id s) (stock s)) out \<longleftrightarrow> d1 = d2 \<or> out = []"
  by (cases out) (auto simp: dict_date_inj)

text \<open>
  C3 (as amended): \<open>create_stocks\<close> of \<open>market.py\<close> stamps every record with the clock
  reading of the call. A second call on the same inputs, with its own copy of the
  offer-id list, returns the first call's list with its own time stamp in place of the
  first one's and leaves the same ids; the two lists are identical exactly when both
  calls read the same second or the list is empty. Beyond the time stamp and the
  warehouse the list is the one \<open>create_stocks\<close> of \<open>seller.py\<close> computes from its
  arguments alone, and both fail on the same inputs.
\<close>

theorem create_stocks_rerun:
  "(market_create_stocks d1 ws ids wh = Inr (o1, r1) \<longrightarrow>
      market_create_stocks d2 ws ids wh = Inr (map (redate d2) o1, r1)
      \<and> (map (redate d2) o1 = o1 \<longleftrightarrow> d1 = d2 \<or> o1 = [])
      \<and> (\<exists>so. seller_create_stocks ws ids = Inr (so, r1)
              \<and> o1 = map (\<lambda>s. market_stock_dict d1 wh (offer_id s) (stock s)) so))
   \<and> (market_create_stocks d1 ws ids wh = Inl e \<longrightarrow>
      market_create_stocks d2 ws ids wh = Inl e \<and> seller_create_stocks ws ids = Inl e)"
proof (intro conjI impI)
  assume a: "market_create_stocks d1 ws ids wh = Inr (o1, r1)"
  then obtain so where s: "seller_create_stocks ws ids = Inr (so, r1)"
    and o1: "o1 = map (\<lambda>s. market_stock_dict d1 wh (offer_id s) (stock s)) so"
    unfolding market_as_seller by (auto split: sum.splits prod.splits)
  show "market_create_stocks d2 ws ids wh = Inr (map (redate d2) o1, r1)"
    unfolding market_as_seller o1 redate_map using s by simp
  show "map (redate d2) o1 = o1 \<longleftrightarrow> d1 = d2 \<or> o1 = []"
    unfolding o1 redate_map dict_map_eq by simp
  show "\<exists>so. seller_create_stocks ws ids = Inr (so, r1)
              \<and> o1 = map (\<lambda>s. market_stock_dict d1 wh (offer_id s) (stock s)) so"
    by (rule exI [of _ so]) (rule conjI [OF s o1])
next
  assume "market_create_stocks d1 ws ids wh = Inl e"
  then have s: "seller_create_stocks ws ids = Inl e"
    unfolding market_as_seller by (auto split: sum.splits prod.splits)
  then show "market_create_stocks d2 ws ids wh = Inl e" unfolding market_as_seller by simp
  from s show "seller_create_stocks ws ids = Inl e" .
qed

theorem create_stocks_rerun_witness:
  "market_create_stocks ''2023-07-09T17:37:34Z'' example_watches example_offer_ids ''104564''
     = Inr ([market_stock_dict ''2023-07-09T17:37:34Z'' ''104564'' ''A1'' 100,
             market_stock_dict ''2023-07-09T17:37:34Z'' ''104564'' ''A2'' 0,
             market_stock_dict ''2023-07-09T17:37:34Z'' ''104564'' ''A3'' 0], [''A3''])
   \<and> market_create_stocks ''2023-07-09T17:37:35Z'' example_watches example_offer_ids ''104564''
     = Inr ([market_stock_dict ''2023-07-09T17:37:35Z'' ''104564'' ''A1'' 100,
             market_stock_dict ''2023-07-09T17:37:35Z'' ''104564'' ''A2'' 0,
             market_stock_dict ''2023-07-09T17:37:35Z'' ''104564'' ''A3'' 0], [''A3''])
   \<and> market_create_stocks ''2023-07-09T17:37:34Z''
        [\<lparr>Kod = PStr ''A1'', Kolichestvo = PStr ''many'', Tsena = PStr ''1''\<rparr>] [''A1''] ''104564''
     = Inl ValueError
   \<and> seller_create_stocks
        [\<lparr>Kod = PStr ''A1'', Kolichestvo = PStr ''many'', Tsena = PStr ''1''\<rparr>] [''A1'']
     = Inl ValueError"
proof -
  have i: "int_of_str ''many'' = None" by code_simp
  have b: "market_create_stocks ''2023-07-09T17:37:34Z''
        [\<lparr>Kod = PStr ''A1'', Kolichestvo = PStr ''many'', Tsena = PStr ''1''\<rparr>] [''A1''] ''104564''
     = Inl ValueError"
    by (simp add: market_create_stocks_def normalize_quantity_def i)
  from create_stocks_rerun
         [where ?d1.0 = "''2023-07-09T17:37:34Z''" and ?d2.0 = "''2023-07-09T17:37:35Z''"
            and ws = example_watches and ids = example_offer_ids and wh = "''104564''"
            and ?o1.0 = "[market_stock_dict ''2023-07-09T17:37:34Z'' ''104564'' ''A1'' 100,
                         market_stock_dict ''2023-07-09T17:37:34Z'' ''104564'' ''A2'' 0,
                         market_stock_dict ''2023-07-09T17:37:34Z'' ''104564'' ''A3'' 0]"
            and ?r1.0 = "[''A3'']"]
    example_market_stocks
  have 1: "market_create_stocks ''2023-07-09T17:37:35Z'' example_watches example_offer_ids ''104564''
     = Inr ([market_stock_dict ''2023-07-09T17:37:35Z'' ''104564'' ''A1'' 100,
             market_stock_dict ''2023-07-09T17:37:35Z'' ''104564'' ''A2'' 0,
             market_stock_dict ''2023-07-09T17:37:35Z'' ''104564'' ''A3'' 0], [''A3''])"
    by (simp add: redate_dict)
  from create_stocks_rerun
         [where ?d1.0 = "''2023-07-09T17:37:34Z''" and ?d2.0 = "''2023-07-09T17:37:34Z''"
            and ws = "[\<lparr>Kod = PStr ''A1'', Kolichestvo = PStr ''many'', Tsena = PStr ''1''\<rparr>]"
            and ids = "[''A1'']" and wh = "''104564''" and e = ValueError] b
  have 2: "seller_create_stocks
        [\<lparr>Kod = PStr ''A1'', Kolichestvo = PStr ''many'', Tsena = PStr ''1''\<rparr>] [''A1'']
     = Inl ValueError"
    by blast
  from example_market_stocks 1 b 2 show ?thesis by blast
qed

text \<open>
  C3 as stated fails for \<open>market.py\<close>: two calls on the same inputs that read different
  seconds return different lists.
\<close>

theorem create_stocks_clock_counterexample:
  "market_create_stocks ''2023-07-09T17:37:34Z'' [] [''A''] ''104564''
     \<noteq> market_create_stocks ''2023-07-09T17:37:35Z'' [] [''A''] ''104564''"
  by (simp add: market_create_stocks_def market_stock_dict_def)

section \<open>Price records\<close>

text \<open>
  C7: \<open>create_prices\<close> emits one price record for each inventory record whose
  string-coerced code is in the offer-id list, in inventory order, carrying the converted
  price; the offer ids of the records are the listed ids that some inventory record has,
  so an offer id without inventory record gets no price record. The call returns exactly
  when every such record has a string price (for \<open>market.py\<close>: with a digit before the
  first dot).
\<close>

theorem create_prices_matched_only:
  "(seller_create_prices ws ids = Inr (ps, r) \<longrightarrow>
      list_all2 seller_price_of (filter (\<lambda>w. watch_code w \<in> set ids) ws) ps
      \<and> set (map price_offer_id ps) = set ids \<inter> watch_code ` set ws)
   \<and> ((\<exists>res. seller_create_prices ws ids = Inr res)
        \<longleftrightarrow> (\<forall>w \<in> set ws. watch_code w \<in> set ids \<longrightarrow> (\<exists>s. Tsena w = PStr s)))
   \<and> (market_create_prices ws ids = Inr (mps, mr) \<longrightarrow>
      list_all2 market_price_of (filter (\<lambda>w. watch_code w \<in> set ids) ws) mps
      \<and> set (map price_id mps) = set ids \<inter> watch_code ` set ws)
   \<and> ((\<exists>res. market_create_prices ws ids = Inr res)
        \<longleftrightarrow> (\<forall>w \<in> set ws. watch_code w \<in> set ids \<longrightarrow> (\<exists>d. price_digits w = Some d \<and> d \<noteq> [])))"
proof -
  have S: "seller_create_prices ws ids = Inr (ps, r) \<longrightarrow>
      list_all2 seller_price_of (filter (\<lambda>w. watch_code w \<in> set ids) ws) ps
      \<and> set (map price_offer_id ps) = set ids \<inter> watch_code ` set ws"
  proof
    assume "seller_create_prices ws ids = Inr (ps, r)"
    then have "seller_create_prices_loop ws [] ids = Inr (ps, r)" by (simp add: seller_create_prices_def)
    from seller_prices_result [OF this]
    have l: "list_all2 seller_price_of (filter (\<lambda>w. watch_code w \<in> set ids) ws) ps" by simp
    from l prices_codes [OF l]
    show "list_all2 seller_price_of (filter (\<lambda>w. watch_code w \<in> set ids) ws) ps
      \<and> set (map price_offer_id ps) = set ids \<inter> watch_code ` set ws" by (rule conjI)
  qed
  have M: "market_create_prices ws ids = Inr (mps, mr) \<longrightarrow>
      list_all2 market_price_of (filter (\<lambda>w. watch_code w \<in> set ids) ws) mps
      \<and> set (map price_id mps) = set ids \<inter> watch_code ` set ws"
  proof
    assume "market_create_prices ws ids = Inr (mps, mr)"
    then have "market_create_prices_loop ws [] ids = Inr (mps, mr)" by (simp add: market_create_prices_def)
    from market_prices_result [OF this]
    have l: "list_all2 market_price_of (filter (\<lambda>w. watch_code w \<in> set ids) ws) mps" by simp
    from l market_prices_codes [OF l]
    show "list_all2 market_price_of (filter (\<lambda>w. watch_code w \<in> set ids) ws) mps
      \<and> set (map price_id mps) = set ids \<inter> watch_code ` set ws" by (rule conjI)
  qed
  have R1: "(\<exists>res. seller_create_prices ws ids = Inr res)
        \<longleftrightarrow> (\<forall>w \<in> set ws. watch_code w \<in> set ids \<longrightarrow> (\<exists>s. Tsena w = PStr s))"
    unfolding seller_create_prices_def by (rule seller_prices_returns)
  have R2: "(\<exists>res. market_create_prices ws ids = Inr res)
        \<longleftrightarrow> (\<forall>w \<in> set ws. watch_code w \<in> set ids \<longrightarrow> (\<exists>d. price_digits w = Some d \<and> d \<noteq> []))"
    unfolding market_create_prices_def by (rule market_prices_returns)
  show ?thesis by (rule conjI [OF S conjI [OF R1 conjI [OF M R2]]])
qed

lemma example_seller_prices:
  "seller_create_prices example_watches example_offer_ids
     = Inr ([\<lparr>auto_action_enabled = ''UNKNOWN'', currency_code = ''RUB'', price_offer_id = ''A1'',
               old_price = ''0'', price = ''100''\<rparr>,
             \<lparr>auto_action_enabled = ''UNKNOWN'', currency_code = ''RUB'', price_offer_id = ''A2'',
               old_price = ''0'', price = ''50''\<rparr>], example_offer_ids)"
  by (simp add: seller_create_prices_def example_watches_def example_offer_ids_def
        price_conversion_str is_digit_def del: price_conversion.simps)

lemma example_market_prices:
  "market_create_prices example_watches example_offer_ids
     = Inr ([\<lparr>price_id = ''A1'', price_dict = \<lparr>price_value = 100, currencyId = ''RUR''\<rparr>\<rparr>,
             \<lparr>price_id = ''A2'', price_dict = \<lparr>price_value = 50, currencyId = ''RUR''\<rparr>\<rparr>],
            example_offer_ids)"
proof -
  have a: "int_of_str ''100'' = Some 100" by code_simp
  have b: "int_of_str ''50'' = Some 50" by code_simp
  show ?thesis
    by (simp add: market_create_prices_def example_watches_def example_offer_ids_def
        price_conversion_str is_digit_def a b del: price_conversion.simps)
qed

theorem create_prices_matched_only_witness:
  "seller_create_prices example_watches example_offer_ids
     = Inr ([\<lparr>auto_action_enabled = ''UNKNOWN'', currency_code = ''RUB'', price_offer_id = ''A1'',
               old_price = ''0'', price = ''100''\<rparr>,
             \<lparr>auto_action_enabled = ''UNKNOWN'', currency_code = ''RUB'', price_offer_id = ''A2'',
               old_price = ''0'', price = ''50''\<rparr>], example_offer_ids)
   \<and> market_create_prices example_watches example_offer_ids
     = Inr ([\<lparr>price_id = ''A1'', price_dict = \<lparr>price_value = 100, currencyId = ''RUR''\<rparr>\<rparr>,
             \<lparr>price_id = ''A2'', price_dict = \<lparr>price_value = 50, currencyId = ''RUR''\<rparr>\<rparr>],
            example_offer_ids)
   \<and> {''A1'', ''A2''} = set example_offer_ids \<inter> watch_code ` set example_watches"
proof -
  from create_prices_matched_only
         [where ws = example_watches and ids = example_offer_ids
            and ps = "[\<lparr>auto_action_enabled = ''UNKNOWN'', currency_code = ''RUB'', price_offer_id = ''A1'',
                         old_price = ''0'', price = ''100''\<rparr>,
                       \<lparr>auto_action_enabled = ''UNKNOWN'', currency_code = ''RUB'', price_offer_id = ''A2'',
                         old_price = ''0'', price = ''50''\<rparr>]"
            and r = example_offer_ids
            and mps = "[\<lparr>price_id = ''A1'', price_dict = \<lparr>price_value = 100, currencyId = ''RUR''\<rparr>\<rparr>,
                        \<lparr>price_id = ''A2'', price_dict = \<lparr>price_value = 50, currencyId = ''RUR''\<rparr>\<rparr>]"
            and mr = example_offer_ids]
    example_seller_prices example_market_prices
  have "set (map price_offer_id [\<lparr>auto_action_enabled = ''UNKNOWN'', currency_code = ''RUB'', price_offer_id = ''A1'',
                         old_price = ''0'', price = ''100''\<rparr>,
                       \<lparr>auto_action_enabled = ''UNKNOWN'', currency_code = ''RUB'', price_offer_id = ''A2'',
                         old_price = ''0'', price = ''50''\<rparr>])
          = set example_offer_ids \<inter> watch_code ` set example_watches"
    by blast
  with example_seller_prices example_market_prices show ?thesis by simp
qed

section \<open>The offer-id list after \<open>create_stocks\<close>\<close>

lemma seller_stocks_left:
  assumes "seller_create_stocks ws ids = Inr (out, r)"
  shows "mset r = mset ids - mset (map watch_code ws) \<and> subseq r ids
     \<and> (distinct ids \<longrightarrow> r = filter (\<lambda>i. i \<notin> watch_code ` set ws) ids
            \<and> seller_create_prices ws r = Inr ([], r))"
proof -
  have r: "r = fold (\<lambda>w. remove1 (watch_code w)) ws ids"
    by (rule seller_create_stocks_result(2) [OF assms])
  have 1: "mset r = mset ids - mset (map watch_code ws)" unfolding r by (rule remaining_mset)
  have 2: "subseq r ids" unfolding r by (rule remaining_subseq)
  have 3: "r = filter (\<lambda>i. i \<notin> watch_code ` set ws) ids \<and> seller_create_prices ws r = Inr ([], r)"
    if d: "distinct ids"
  proof -
    have f: "r = filter (\<lambda>i. i \<notin> watch_code ` set ws) ids"
      unfolding r by (rule remaining_distinct [OF d])
    then have "\<forall>w \<in> set ws. watch_code w \<notin> set r" by auto
    then have "seller_create_prices ws r = Inr ([], r)"
      unfolding seller_create_prices_def by (rule seller_prices_none)
    with f show ?thesis by (rule conjI)
  qed
  from 1 2 3 show ?thesis by blast
qed

text \<open>
  C9 (as amended): \<open>create_stocks\<close> changes the caller's offer-id list: each matched
  inventory record takes one occurrence of its code out, so what is left is the listing
  minus the inventory codes as multisets, in listing order. When the listing has no
  duplicates, what is left is exactly the ids that no inventory record has, and
  \<open>create_prices\<close> run afterwards on that list emits no price record at all.
  \<open>create_prices\<close> leaves its offer-id list as it was, and prices only codes in it.
\<close>

theorem create_stocks_consumes_offer_ids:
  "(seller_create_stocks ws ids = Inr (out, r) \<longrightarrow>
      mset r = mset ids - mset (map watch_code ws) \<and> subseq r ids
      \<and> (distinct ids \<longrightarrow> r = filter (\<lambda>i. i \<notin> watch_code ` set ws) ids
             \<and> seller_create_prices ws r = Inr ([], r)))
   \<and> (market_create_stocks date ws ids wh = Inr (mout, mr) \<longrightarrow>
      mset mr = mset ids - mset (map watch_code ws) \<and> subseq mr ids
      \<and> (distinct ids \<longrightarrow> mr = filter (\<lambda>i. i \<notin> watch_code ` set ws) ids))
   \<and> (seller_create_prices ws ids' = Inr (ps, r') \<longrightarrow>
      r' = ids' \<and> set (map price_offer_id ps) = set ids' \<inter> watch_code ` set ws)
   \<and> (market_create_prices ws ids' = Inr (mps, mr') \<longrightarrow> mr' = ids')"
proof -
  have S: "seller_create_stocks ws ids = Inr (out, r) \<longrightarrow>
      mset r = mset ids - mset (map watch_code ws) \<and> subseq r ids
      \<and> (distinct ids \<longrightarrow> r = filter (\<lambda>i. i \<notin> watch_code ` set ws) ids
             \<and> seller_create_prices ws r = Inr ([], r))"
    using seller_stocks_left by (rule impI)
  have M: "market_create_stocks date ws ids wh = Inr (mout, mr) \<longrightarrow>
      mset mr = mset ids - mset (map watch_code ws) \<and> subseq mr ids
      \<and> (distinct ids \<longrightarrow> mr = filter (\<lambda>i. i \<notin> watch_code ` set ws) ids)"
  proof
    assume "market_create_stocks date ws ids wh = Inr (mout, mr)"
    then obtain so where "seller_create_stocks ws ids = Inr (so, mr)"
      unfolding market_as_seller by (auto split: sum.splits prod.splits)
    from seller_stocks_left [OF this]
    show "mset mr = mset ids - mset (map watch_code ws) \<and> subseq mr ids
      \<and> (distinct ids \<longrightarrow> mr = filter (\<lambda>i. i \<notin> watch_code ` set ws) ids)"
      by blast
  qed
  have P: "seller_create_prices ws ids' = Inr (ps, r') \<longrightarrow>
      r' = ids' \<and> set (map price_offer_id ps) = set ids' \<inter> watch_code ` set ws"
  proof
    assume "seller_create_prices ws ids' = Inr (ps, r')"
    then have "seller_create_prices_loop ws [] ids' = Inr (ps, r')" by (simp add: seller_create_prices_def)
    from seller_prices_result [OF this]
    have e: "r' = ids'" and l: "list_all2 seller_price_of (filter (\<lambda>w. watch_code w \<in> set ids') ws) ps"
      by simp_all
    from e prices_codes [OF l]
    show "r' = ids' \<and> set (map price_offer_id ps) = set ids' \<inter> watch_code ` set ws" by (rule conjI)
  qed
  have Q: "market_create_prices ws ids' = Inr (mps, mr') \<longrightarrow> mr' = ids'"
  proof
    assume "market_create_prices ws ids' = Inr (mps, mr')"
    then have "market_create_prices_loop ws [] ids' = Inr (mps, mr')" by (simp add: market_create_prices_def)
    from market_prices_result [OF this] show "mr' = ids'" by simp
  qed
  show ?thesis by (rule conjI [OF S conjI [OF M conjI [OF P Q]]])
qed

theorem create_stocks_consumes_offer_ids_witness:
  "seller_create_stocks example_watches example_offer_ids
     = Inr ([\<lparr>offer_id = ''A1'', stock = 100\<rparr>, \<lparr>offer_id = ''A2'', stock = 0\<rparr>,
             \<lparr>offer_id = ''A3'', stock = 0\<rparr>], [''A3''])
   \<and> distinct example_offer_ids
   \<and> seller_create_prices example_watches [''A3''] = Inr ([], [''A3''])
   \<and> market_create_stocks ''2023-07-09T17:37:34Z'' example_watches example_offer_ids ''104564''
     = Inr ([market_stock_dict ''2023-07-09T17:37:34Z'' ''104564'' ''A1'' 100,
             market_stock_dict ''2023-07-09T17:37:34Z'' ''104564'' ''A2'' 0,
             market_stock_dict ''2023-07-09T17:37:34Z'' ''104564'' ''A3'' 0], [''A3''])
   \<and> mset [''A3''] = mset example_offer_ids - mset (map watch_code example_watches)
   \<and> seller_create_prices example_watches example_offer_ids
     = Inr ([\<lparr>auto_action_enabled = ''UNKNOWN'', currency_code = ''RUB'', price_offer_id = ''A1'',
               old_price = ''0'', price = ''100''\<rparr>,
             \<lparr>auto_action_enabled = ''UNKNOWN'', currency_code = ''RUB'', price_offer_id = ''A2'',
               old_price = ''0'', price = ''50''\<rparr>], example_offer_ids)
   \<and> market_create_prices example_watches example_offer_ids
     = Inr ([\<lparr>price_id = ''A1'', price_dict = \<lparr>price_value = 100, currencyId = ''RUR''\<rparr>\<rparr>,
             \<lparr>price_id = ''A2'', price_dict = \<lparr>price_value = 50, currencyId = ''RUR''\<rparr>\<rparr>],
            example_offer_ids)"
proof -
  have d: "distinct example_offer_ids" by (simp add: example_offer_ids_def)
  from create_stocks_consumes_offer_ids
         [where ws = example_watches and ids = example_offer_ids
            and out = "[\<lparr>offer_id = ''A1'', stock = 100\<rparr>, \<lparr>offer_id = ''A2'', stock = 0\<rparr>,
                        \<lparr>offer_id = ''A3'', stock = 0\<rparr>]"
            and r = "[''A3'']" and date = "''2023-07-09T17:37:34Z''" and wh = "''104564''"
            and mout = "[market_stock_dict ''2023-07-09T17:37:34Z'' ''104564'' ''A1'' 100,
                         market_stock_dict ''2023-07-09T17:37:34Z'' ''104564'' ''A2'' 0,
                         market_stock_dict ''2023-07-09T17:37:34Z'' ''104564'' ''A3'' 0]"
            and mr = "[''A3'']" and ids' = example_offer_ids
            and ps = "[\<lparr>auto_action_enabled = ''UNKNOWN'', currency_code = ''RUB'', price_offer_id = ''A1'',
                         old_price = ''0'', price = ''100''\<rparr>,
                       \<lparr>auto_action_enabled = ''UNKNOWN'', currency_code = ''RUB'', price_offer_id = ''A2'',
                         old_price = ''0'', price = ''50''\<rparr>]"
            and r' = example_offer_ids
            and mps = "[\<lparr>price_id = ''A1'', price_dict = \<lparr>price_value = 100, currencyId = ''RUR''\<rparr>\<rparr>,
                        \<lparr>price_id = ''A2'', price_dict = \<lparr>price_value = 50, currencyId = ''RUR''\<rparr>\<rparr>]"
            and mr' = example_offer_ids]
    example_seller_stocks example_market_stocks example_seller_prices example_market_prices d
  show ?thesis by blast
qed

text \<open>
  C9 as stated fails on a listing with a duplicate: the matched code is still in the list
  after \<open>create_stocks\<close>, and \<open>create_prices\<close> run on that list prices the matched code.
\<close>

theorem create_stocks_consumes_offer_ids_counterexample:
  "seller_create_stocks [\<lparr>Kod = PStr ''A'', Kolichestvo = PStr ''5'', Tsena = PStr ''10''\<rparr>] [''A'', ''A'']
     = Inr ([\<lparr>offer_id = ''A'', stock = 5\<rparr>, \<lparr>offer_id = ''A'', stock = 0\<rparr>], [''A''])
   \<and> seller_create_prices [\<lparr>Kod = PStr ''A'', Kolichestvo = PStr ''5'', Tsena = PStr ''10''\<rparr>] [''A'']
     = Inr ([\<lparr>auto_action_enabled = ''UNKNOWN'', currency_code = ''RUB'', price_offer_id = ''A'',
               old_price = ''0'', price = ''10''\<rparr>], [''A''])"
proof -
  have a: "int_of_str ''5'' = Some 5" by code_simp
  show ?thesis
    by (simp add: seller_create_stocks_def seller_create_prices_def normalize_quantity_def a
          price_conversion_str is_digit_def del: price_conversion.simps)
qed

section \<open>The listing loop\<close>

lemma seller_run_Suc_page:
  "seller_answer srv k = Inr pg \<Longrightarrow>
     seller_run srv (Suc k) = (last_id pg, snd (seller_run srv k) @ page_items pg)"
  by (simp add: seller_answer_def)

lemma seller_pages_reach:
  assumes "seller_leaves srv n" and "\<forall>j. k \<le> j \<and> j < n \<longrightarrow> \<not> seller_leaves srv j" and "k \<le> n"
  shows "seller_get_pages srv k (fst (seller_run srv k)) (snd (seller_run srv k))
           = Some (case seller_answer srv n of Inl e \<Rightarrow> Inl e
                   | Inr pg \<Rightarrow> Inr (snd (seller_run srv n) @ page_items pg))"
  using assms(2,3)
proof (induction "n - k" arbitrary: k)
  case 0
  then have k: "k = n" by simp
  show ?case
  proof (cases "seller_answer srv n")
    case (Inl e)
    then show ?thesis unfolding k by (subst seller_get_pages.simps) (simp add: seller_answer_def)
  next
    case (Inr pg)
    with assms(1) have "total pg = int (length (snd (seller_run srv n) @ page_items pg))"
      by (simp add: seller_leaves_def)
    with Inr show ?thesis unfolding k by (subst seller_get_pages.simps) (simp add: seller_answer_def)
  qed
next
  case (Suc d)
  then have kn: "k < n" by simp
  with Suc.prems have nl: "\<not> seller_leaves srv k" by simp
  then obtain pg where pg: "seller_answer srv k = Inr pg"
    and t: "total pg \<noteq> int (length (snd (seller_run srv k) @ page_items pg))"
    by (cases "seller_answer srv k") (auto simp: seller_leaves_def)
  have r: "seller_run srv (Suc k) = (last_id pg, snd (seller_run srv k) @ page_items pg)"
    by (rule seller_run_Suc_page [OF pg])
  have "seller_get_pages srv (Suc k) (fst (seller_run srv (Suc k))) (snd (seller_run srv (Suc k)))
          = Some (case seller_answer srv n of Inl e \<Rightarrow> Inl e
                   | Inr pg \<Rightarrow> Inr (snd (seller_run srv n) @ page_items pg))"
    using Suc.hyps(2) Suc.prems kn by (intro Suc.hyps(1)) auto
  then have "seller_get_pages srv (Suc k) (last_id pg) (snd (seller_run srv k) @ page_items pg)
          = Some (case seller_answer srv n of Inl e \<Rightarrow> Inl e
                   | Inr pg \<Rightarrow> Inr (snd (seller_run srv n) @ page_items pg))"
    by (simp only: r fst_conv snd_conv)
  with pg t show ?case
    by (subst seller_get_pages.simps) (simp add: seller_answer_def)
qed

lemma seller_pages_leave:
  assumes "seller_get_pages srv k token pl = Some y"
  shows "(token, pl) = seller_run srv k \<longrightarrow> (\<exists>n. k \<le> n \<and> seller_leaves srv n)"
proof (rule seller_get_pages.raw_induct
         [where P = "\<lambda>srv k token pl y. (token, pl) = seller_run srv k \<longrightarrow> (\<exists>n. k \<le> n \<and> seller_leaves srv n)",
          OF _ assms])
  fix f :: "(nat \<Rightarrow> string \<Rightarrow> error + seller_page) \<Rightarrow> nat \<Rightarrow> string \<Rightarrow> product list
              \<Rightarrow> (error + product list) option"
  fix srv k token pl y
  assume IH: "\<And>a b c d y. f a b c d = Some y \<Longrightarrow>
                 (c, d) = seller_run a b \<longrightarrow> (\<exists>n. b \<le> n \<and> seller_leaves a n)"
  assume body: "(case srv k token of
        Inl e \<Rightarrow> Some (Inl e)
      | Inr some_prod \<Rightarrow>
          (if total some_prod = int (length (pl @ page_items some_prod))
           then Some (Inr (pl @ page_items some_prod))
           else f srv (Suc k) (last_id some_prod) (pl @ page_items some_prod))) = Some y"
  show "(token, pl) = seller_run srv k \<longrightarrow> (\<exists>n. k \<le> n \<and> seller_leaves srv n)"
  proof
    assume run: "(token, pl) = seller_run srv k"
    then have a: "seller_answer srv k = srv k token" and s: "snd (seller_run srv k) = pl"
      by (simp_all add: seller_answer_def flip: run)
    show "\<exists>n. k \<le> n \<and> seller_leaves srv n"
    proof (cases "seller_leaves srv k")
      case True then show ?thesis by blast
    next
      case False
      then obtain pg where pg: "srv k token = Inr pg"
        and t: "total pg \<noteq> int (length (pl @ page_items pg))"
        unfolding seller_leaves_def a s by (cases "srv k token") auto
      with body have "f srv (Suc k) (last_id pg) (pl @ page_items pg) = Some y" by simp
      moreover have "(last_id pg, pl @ page_items pg) = seller_run srv (Suc k)"
        using pg by (simp flip: run)
      ultimately obtain n where "Suc k \<le> n" "seller_leaves srv n" using IH by blast
      then show ?thesis by (intro exI [of _ n]) simp
    qed
  qed
qed

lemma seller_run_ids:
  "map product_offer_id (snd (seller_run srv k))
     = concat (map (\<lambda>j. case seller_answer srv j of Inl e \<Rightarrow> []
                          | Inr p \<Rightarrow> map product_offer_id (page_items p)) [0..<k])"
proof (induction k)
  case 0 show ?case by simp
next
  case (Suc k)
  show ?case
  proof (cases "seller_answer srv k")
    case (Inl e)
    then have "seller_run srv (Suc k) = seller_run srv k" by (simp add: seller_answer_def)
    with Suc Inl show ?thesis by simp
  next
    case (Inr pg)
    from seller_run_Suc_page [OF Inr] Suc Inr show ?thesis by simp
  qed
qed

lemma seller_listing_stops:
  assumes "seller_leaves srv n" and "\<forall>j < n. \<not> seller_leaves srv j"
  shows "seller_get_offer_ids srv = Some (seller_outcome srv n)"
proof -
  have "seller_get_pages srv 0 (fst (seller_run srv 0)) (snd (seller_run srv 0))
           = Some (case seller_answer srv n of Inl e \<Rightarrow> Inl e
                   | Inr pg \<Rightarrow> Inr (snd (seller_run srv n) @ page_items pg))"
    using assms by (intro seller_pages_reach) auto
  then have g: "seller_get_pages srv 0 [] []
           = Some (case seller_answer srv n of Inl e \<Rightarrow> Inl e
                   | Inr pg \<Rightarrow> Inr (snd (seller_run srv n) @ page_items pg))"
    by simp
  show ?thesis
  proof (cases "seller_answer srv n")
    case (Inl e)
    with g show ?thesis by (simp add: seller_get_offer_ids_def seller_outcome_def)
  next
    case (Inr pg)
    have "map product_offer_id (snd (seller_run srv n) @ page_items pg)
        = concat (map (\<lambda>j. case seller_answer srv j of Inl e \<Rightarrow> []
                          | Inr p \<Rightarrow> map product_offer_id (page_items p)) [0..<Suc n])"
      using seller_run_ids [of srv n] Inr by simp
    with g Inr show ?thesis by (simp add: seller_get_offer_ids_def seller_outcome_def)
  qed
qed

lemma seller_listing_ends_iff:
  "seller_get_offer_ids srv \<noteq> None \<longleftrightarrow> (\<exists>n. seller_leaves srv n)"
proof
  assume "seller_get_offer_ids srv \<noteq> None"
  then obtain y where "seller_get_pages srv 0 [] [] = Some y"
    by (auto simp: seller_get_offer_ids_def split: option.splits)
  from seller_pages_leave [OF this] show "\<exists>n. seller_leaves srv n" by auto
next
  assume "\<exists>n. seller_leaves srv n"
  then obtain n where "seller_leaves srv n" and "\<forall>j < n. \<not> seller_leaves srv j"
    unfolding exists_least_iff [of "seller_leaves srv"] by blast
  from seller_listing_stops [OF this] show "seller_get_offer_ids srv \<noteq> None" by simp
qed

lemma market_run_Suc_page:
  "market_answer srv k = Inr pg \<Longrightarrow>
     market_run srv (Suc k)
       = (case nextPageToken pg of None \<Rightarrow> [] | Some t \<Rightarrow> t,
          snd (market_run srv k) @ offerMappingEntries pg)"
  by (simp add: market_answer_def)

lemma market_pages_reach:
  assumes "market_leaves srv n" and "\<forall>j. k \<le> j \<and> j < n \<longrightarrow> \<not> market_leaves srv j" and "k \<le> n"
  shows "market_get_pages srv k (fst (market_run srv k)) (snd (market_run srv k))
           = Some (case market_answer srv n of Inl e \<Rightarrow> Inl e
                   | Inr pg \<Rightarrow> Inr (snd (market_run srv n) @ offerMappingEntries pg))"
  using assms(2,3)
proof (induction "n - k" arbitrary: k)
  case 0
  then have k: "k = n" by simp
  show ?case
  proof (cases "market_answer srv n")
    case (Inl e)
    then show ?thesis unfolding k by (subst market_get_pages.simps) (simp add: market_answer_def)
  next
    case (Inr pg)
    with assms(1) have "nextPageToken pg = None \<or> nextPageToken pg = Some []"
      by (simp add: market_leaves_def)
    with Inr show ?thesis unfolding k
      by (subst market_get_pages.simps) (auto simp: market_answer_def)
  qed
next
  case (Suc d)
  then have kn: "k < n" by simp
  with Suc.prems have nl: "\<not> market_leaves srv k" by simp
  then obtain pg t where pg: "market_answer srv k = Inr pg"
    and t: "nextPageToken pg = Some t" "t \<noteq> []"
    by (cases "market_answer srv k") (auto simp: market_leaves_def)
  have r: "market_run srv (Suc k) = (t, snd (market_run srv k) @ offerMappingEntries pg)"
    using market_run_Suc_page [OF pg] t by simp
  have "market_get_pages srv (Suc k) (fst (market_run srv (Suc k))) (snd (market_run srv (Suc k)))
          = Some (case market_answer srv n of Inl e \<Rightarrow> Inl e
                   | Inr pg \<Rightarrow> Inr (snd (market_run srv n) @ offerMappingEntries pg))"
    using Suc.hyps(2) Suc.prems kn by (intro Suc.hyps(1)) auto
  then have "market_get_pages srv (Suc k) t (snd (market_run srv k) @ offerMappingEntries pg)
          = Some (case market_answer srv n of Inl e \<Rightarrow> Inl e
                   | Inr pg \<Rightarrow> Inr (snd (market_run srv n) @ offerMappingEntries pg))"
    by (simp only: r fst_conv snd_conv)
  with pg t show ?case
    by (subst market_get_pages.simps) (simp add: market_answer_def)
qed

lemma market_pages_leave:
  assumes "market_get_pages srv k token pl = Some y"
  shows "(token, pl) = market_run srv k \<longrightarrow> (\<exists>n. k \<le> n \<and> market_leaves srv n)"
proof (rule market_get_pages.raw_induct
         [where P = "\<lambda>srv k token pl y. (token, pl) = market_run srv k \<longrightarrow> (\<exists>n. k \<le> n \<and> market_leaves srv n)",
          OF _ assms])
  fix f :: "(nat \<Rightarrow> string \<Rightarrow> error + market_page) \<Rightarrow> nat \<Rightarrow> string \<Rightarrow> market_entry list
              \<Rightarrow> (error + market_entry list) option"
  fix srv k token pl y
  assume IH: "\<And>a b c d y. f a b c d = Some y \<Longrightarrow>
                 (c, d) = market_run a b \<longrightarrow> (\<exists>n. b \<le> n \<and> market_leaves a n)"
  assume body: "(case srv k token of
        Inl e \<Rightarrow> Some (Inl e)
      | Inr some_prod \<Rightarrow>
          (case nextPageToken some_prod of
             None \<Rightarrow> Some (Inr (pl @ offerMappingEntries some_prod))
           | Some page' \<Rightarrow>
               if page' = [] then Some (Inr (pl @ offerMappingEntries some_prod))
               else f srv (Suc k) page' (pl @ offerMappingEntries some_prod))) = Some y"
  show "(token, pl) = market_run srv k \<longrightarrow> (\<exists>n. k \<le> n \<and> market_leaves srv n)"
  proof
    assume run: "(token, pl) = market_run srv k"
    then have a: "market_answer srv k = srv k token" and s: "snd (market_run srv k) = pl"
      by (simp_all add: market_answer_def flip: run)
    show "\<exists>n. k \<le> n \<and> market_leaves srv n"
    proof (cases "market_leaves srv k")
      case True then show ?thesis by blast
    next
      case False
      then obtain pg t where pg: "srv k token = Inr pg"
        and t: "nextPageToken pg = Some t" "t \<noteq> []"
        unfolding market_leaves_def a by (cases "srv k token") auto
      with body have "f srv (Suc k) t (pl @ offerMappingEntries pg) = Some y" by simp
      moreover have "(t, pl @ offerMappingEntries pg) = market_run srv (Suc k)"
        using pg t by (simp flip: run)
      ultimately obtain n where "Suc k \<le> n" "market_leaves srv n" using IH by blast
      then show ?thesis by (intro exI [of _ n]) simp
    qed
  qed
qed

lemma market_run_ids:
  "map shopSku (snd (market_run srv k))
     = concat (map (\<lambda>j. case market_answer srv j of Inl e \<Rightarrow> []
                          | Inr p \<Rightarrow> map shopSku (offerMappingEntries p)) [0..<k])"
proof (induction k)
  case 0 show ?case by simp
next
  case (Suc k)
  show ?case
  proof (cases "market_answer srv k")
    case (Inl e)
    then have "market_run srv (Suc k) = market_run srv k" by (simp add: market_answer_def)
    with Suc Inl show ?thesis by simp
  next
    case (Inr pg)
    from market_run_Suc_page [OF Inr] Suc Inr show ?thesis by simp
  qed
qed

lemma market_listing_stops:
  assumes "market_leaves srv n" and "\<forall>j < n. \<not> market_leaves srv j"
  shows "market_get_offer_ids srv = Some (market_outcome srv n)"
proof -
  have "market_get_pages srv 0 (fst (market_run srv 0)) (snd (market_run srv 0))
           = Some (case market_answer srv n of Inl e \<Rightarrow> Inl e
                   | Inr pg \<Rightarrow> Inr (snd (market_run srv n) @ offerMappingEntries pg))"
    using assms by (intro market_pages_reach) auto
  then have g: "market_get_pages srv 0 [] []
           = Some (case market_answer srv n of Inl e \<Rightarrow> Inl e
                   | Inr pg \<Rightarrow> Inr (snd (market_run srv n) @ offerMappingEntries pg))"
    by simp
  show ?thesis
  proof (cases "market_answer srv n")
    case (Inl e)
    with g show ?thesis by (simp add: market_get_offer_ids_def market_outcome_def)
  next
    case (Inr pg)
    have "map shopSku (snd (market_run srv n) @ offerMappingEntries pg)
        = concat (map (\<lambda>j. case market_answer srv j of Inl e \<Rightarrow> []
                          | Inr p \<Rightarrow> map shopSku (offerMappingEntries p)) [0..<Suc n])"
      using market_run_ids [of srv n] Inr by simp
    with g Inr show ?thesis by (simp add: market_get_offer_ids_def market_outcome_def)
  qed
qed

lemma market_listing_ends_iff:
  "market_get_offer_ids srv \<noteq> None \<longleftrightarrow> (\<exists>n. market_leaves srv n)"
proof
  assume "market_get_offer_ids srv \<noteq> None"
  then obtain y where "market_get_pages srv 0 [] [] = Some y"
    by (auto simp: market_get_offer_ids_def split: option.splits)
  from market_pages_leave [OF this] show "\<exists>n. market_leaves srv n" by auto
next
  assume "\<exists>n. market_leaves srv n"
  then obtain n where "market_leaves srv n" and "\<forall>j < n. \<not> market_leaves srv j"
    unfolding exists_least_iff [of "market_leaves srv"] by blast
  from market_listing_stops [OF this] show "market_get_offer_ids srv \<noteq> None" by simp
qed

text \<open>
  C4 (as amended): \<open>get_offer_ids\<close> ends exactly when some request of the listing is
  answered with the signal to leave or with an exception: for \<open>market.py\<close> a page whose
  continuation token is absent or empty, for \<open>seller.py\<close> a page after which the number of
  collected entries equals the reported total. It then stops at the first such request,
  whatever the number of pages before it, and returns the identifiers of all pages
  requested up to and including that one, in order (or raises that exception). When no
  request is answered so, the loop never ends.
\<close>

theorem get_offer_ids_stops_at_signal:
  "(seller_leaves srv n \<and> (\<forall>j < n. \<not> seller_leaves srv j)
      \<longrightarrow> seller_get_offer_ids srv = Some (seller_outcome srv n))
   \<and> (seller_get_offer_ids srv \<noteq> None \<longleftrightarrow> (\<exists>n. seller_leaves srv n))
   \<and> (market_leaves msrv m \<and> (\<forall>j < m. \<not> market_leaves msrv j)
      \<longrightarrow> market_get_offer_ids msrv = Some (market_outcome msrv m))
   \<and> (market_get_offer_ids msrv \<noteq> None \<longleftrightarrow> (\<exists>m. market_leaves msrv m))"
  using seller_listing_stops [of srv n] seller_listing_ends_iff [of srv]
    market_listing_stops [of msrv m] market_listing_ends_iff [of msrv]
  by blast

lemma two_page_seller_run:
  "\<not> seller_leaves two_page_seller 0" "seller_leaves two_page_seller (Suc 0)"
  "seller_outcome two_page_seller (Suc 0) = Inr [''A1'', ''A2'']"
  by (simp_all add: seller_leaves_def seller_answer_def seller_outcome_def two_page_seller_def)

lemma two_page_market_run:
  "\<not> market_leaves two_page_market 0" "market_leaves two_page_market (Suc 0)"
  "market_outcome two_page_market (Suc 0) = Inr [''A1'', ''A2'']"
  by (simp_all add: market_leaves_def market_answer_def market_outcome_def two_page_market_def)

theorem get_offer_ids_stops_at_signal_witness:
  "seller_get_offer_ids two_page_seller = Some (Inr [''A1'', ''A2''])
   \<and> market_get_offer_ids two_page_market = Some (Inr [''A1'', ''A2''])
   \<and> seller_leaves two_page_seller (Suc 0) \<and> \<not> seller_leaves two_page_seller 0
   \<and> market_leaves two_page_market (Suc 0) \<and> \<not> market_leaves two_page_market 0"
  using get_offer_ids_stops_at_signal [of two_page_seller "Suc 0" two_page_market "Suc 0"]
    two_page_seller_run two_page_market_run
  by simp

lemma overshoot_seller_length:
  "length (snd (seller_run overshoot_seller k)) = (if k = 0 then 0 else 2)"
  by (induction k) (simp_all add: overshoot_seller_def)

lemma overshoot_seller_never_leaves: "\<not> seller_leaves overshoot_seller k"
  using overshoot_seller_length [of k]
  by (simp add: seller_leaves_def seller_answer_def overshoot_seller_def)

lemma endless_market_never_leaves: "\<not> market_leaves endless_market k"
  by (simp add: market_leaves_def market_answer_def endless_market_def)

text \<open>
  C4 as stated fails: the listing of \<open>market.py\<close> never ends on a platform whose every
  page carries a token, and the listing of \<open>seller.py\<close> never ends once the number of
  collected entries has passed the reported total (the test is an equality).
\<close>

theorem get_offer_ids_endless_counterexample:
  "market_get_offer_ids endless_market = None \<and> seller_get_offer_ids overshoot_seller = None"
  using market_listing_ends_iff [of endless_market] seller_listing_ends_iff [of overshoot_seller]
    endless_market_never_leaves overshoot_seller_never_leaves
  by simp

section \<open>Upload of the stock list\<close>

lemma send_chunks_ok: "\<forall>k c. upd k c = None \<Longrightarrow> send_chunks upd k chunks = None"
  by (induction chunks arbitrary: k) simp_all

lemma filter_not_empty_single:
  "\<forall>s \<in> set st. \<exists>i. items s = [i] \<Longrightarrow>
     filter_not_empty st = Inr (filter (\<lambda>s. map item_count (items s) \<noteq> [0]) st)"
  by (induction st) (auto simp: index0_def)

lemma market_output_single:
  assumes "market_create_stocks date ws ids wh = Inr (st, r)"
  shows "\<forall>s \<in> set st. \<exists>i. items s = [i]"
proof -
  from assms obtain so :: "seller_stock list" where "st = map (\<lambda>s. market_stock_dict date wh (offer_id s) (stock s)) so"
    unfolding market_as_seller by (auto split: sum.splits prod.splits)
  then show ?thesis by (auto simp: market_stock_dict_def)
qed

lemma seller_upload_returned:
  assumes "seller_upload_stocks srv upd ws = Some (Inr (not_empty, stocks))"
  shows "(\<exists>ids ids'. seller_get_offer_ids srv = Some (Inr ids)
            \<and> seller_create_stocks ws ids = Inr (stocks, ids'))
         \<and> not_empty = filter (\<lambda>s. stock s \<noteq> 0) stocks"
  using assms unfolding seller_upload_stocks_def
  by (auto split: option.splits sum.splits prod.splits)

lemma seller_upload_returns:
  assumes "seller_get_offer_ids srv = Some (Inr ids)"
    and "seller_create_stocks ws ids = Inr (st, ids')" and "\<forall>k c. upd k c = None"
  shows "seller_upload_stocks srv upd ws = Some (Inr (filter (\<lambda>s. stock s \<noteq> 0) st, st))"
proof -
  have s: "send_chunks upd 0 chunks = None" for chunks by (rule send_chunks_ok [OF assms(3)])
  have d: "divide st 100 = Inr (map (\<lambda>k. take (nat 100) (drop (k * nat 100) st))
                            [0..<range_len 0 (int (length st)) 100])"
    by (rule divide_pos) simp
  show ?thesis unfolding seller_upload_stocks_def assms(1) by (simp add: assms(2) d s)
qed

lemma market_upload_returned:
  assumes "market_upload_stocks srv upd date ws wh = Some (Inr (not_empty, stocks))"
  shows "(\<exists>ids ids'. market_get_offer_ids srv = Some (Inr ids)
            \<and> market_create_stocks date ws ids wh = Inr (stocks, ids'))
         \<and> not_empty = filter (\<lambda>s. map item_count (items s) \<noteq> [0]) stocks"
proof -
  from assms obtain ids ids' where i: "market_get_offer_ids srv = Some (Inr ids)"
    and c: "market_create_stocks date ws ids wh = Inr (stocks, ids')"
    and f: "filter_not_empty stocks = Inr not_empty"
    unfolding market_upload_stocks_def
    by (auto split: option.splits sum.splits prod.splits)
  from f filter_not_empty_single [OF market_output_single [OF c]]
  have "not_empty = filter (\<lambda>s. map item_count (items s) \<noteq> [0]) stocks" by simp
  with i c show ?thesis by blast
qed

lemma market_upload_returns:
  assumes "market_get_offer_ids srv = Some (Inr ids)"
    and "market_create_stocks date ws ids wh = Inr (st, ids')" and "\<forall>k c. upd k c = None"
  shows "market_upload_stocks srv upd date ws wh
           = Some (Inr (filter (\<lambda>s. map item_count (items s) \<noteq> [0]) st, st))"
proof -
  have s: "send_chunks upd 0 chunks = None" for chunks by (rule send_chunks_ok [OF assms(3)])
  have d: "divide st 2000 = Inr (map (\<lambda>k. take (nat 2000) (drop (k * nat 2000) st))
                            [0..<range_len 0 (int (length st)) 2000])"
    by (rule divide_pos) simp
  have f: "filter_not_empty st = Inr (filter (\<lambda>s. map item_count (items s) \<noteq> [0]) st)"
    by (rule filter_not_empty_single [OF market_output_single [OF assms(2)]])
  show ?thesis unfolding market_upload_stocks_def assms(1) by (simp add: assms(2) d s f)
qed

text \<open>
  C8: when \<open>upload_stocks\<close> returns a pair, its second component is the list
  \<open>create_stocks\<close> produced for the listed offer ids, and its first component is the
  sub-list, in the same order, of the records whose stock count is not zero. It
  returns that pair whenever the listing and the reconciliation return and no update call
  raises. This holds for both adapters.
\<close>

theorem upload_stocks_returns_nonzero_and_all:
  "(seller_upload_stocks srv upd ws = Some (Inr (not_empty, stocks)) \<longrightarrow>
      (\<exists>ids ids'. seller_get_offer_ids srv = Some (Inr ids)
            \<and> seller_create_stocks ws ids = Inr (stocks, ids'))
      \<and> not_empty = filter (\<lambda>s. stock s \<noteq> 0) stocks)
   \<and> (seller_get_offer_ids srv = Some (Inr ids) \<and> seller_create_stocks ws ids = Inr (st, ids')
        \<and> (\<forall>k c. upd k c = None) \<longrightarrow>
      seller_upload_stocks srv upd ws = Some (Inr (filter (\<lambda>s. stock s \<noteq> 0) st, st)))
   \<and> (market_upload_stocks msrv mupd date ws wh = Some (Inr (mnot_empty, mstocks)) \<longrightarrow>
      (\<exists>ids ids'. market_get_offer_ids msrv = Some (Inr ids)
            \<and> market_create_stocks date ws ids wh = Inr (mstocks, ids'))
      \<and> mnot_empty = filter (\<lambda>s. map item_count (items s) \<noteq> [0]) mstocks)
   \<and> (market_get_offer_ids msrv = Some (Inr mids) \<and> market_create_stocks date ws mids wh = Inr (mst, mids')
        \<and> (\<forall>k c. mupd k c = None) \<longrightarrow>
      market_upload_stocks msrv mupd date ws wh
        = Some (Inr (filter (\<lambda>s. map item_count (items s) \<noteq> [0]) mst, mst)))"
proof -
  have 1: "seller_upload_stocks srv upd ws = Some (Inr (not_empty, stocks)) \<longrightarrow>
      (\<exists>ids ids'. seller_get_offer_ids srv = Some (Inr ids)
            \<and> seller_create_stocks ws ids = Inr (stocks, ids'))
      \<and> not_empty = filter (\<lambda>s. stock s \<noteq> 0) stocks"
    using seller_upload_returned by (rule impI)
  have 2: "seller_get_offer_ids srv = Some (Inr ids) \<and> seller_create_stocks ws ids = Inr (st, ids')
        \<and> (\<forall>k c. upd k c = None) \<longrightarrow>
      seller_upload_stocks srv upd ws = Some (Inr (filter (\<lambda>s. stock s \<noteq> 0) st, st))"
    using seller_upload_returns by blast
  have 3: "market_upload_stocks msrv mupd date ws wh = Some (Inr (mnot_empty, mstocks)) \<longrightarrow>
      (\<exists>ids ids'. market_get_offer_ids msrv = Some (Inr ids)
            \<and> market_create_stocks date ws ids wh = Inr (mstocks, ids'))
      \<and> mnot_empty = filter (\<lambda>s. map item_count (items s) \<noteq> [0]) mstocks"
    using market_upload_returned by (rule impI)
  have 4: "market_get_offer_ids msrv = Some (Inr mids) \<and> market_create_stocks date ws mids wh = Inr (mst, mids')
        \<and> (\<forall>k c. mupd k c = None) \<longrightarrow>
      market_upload_stocks msrv mupd date ws wh
        = Some (Inr (filter (\<lambda>s. map item_count (items s) \<noteq> [0]) mst, mst))"
    using market_upload_returns by blast
  show ?thesis by (rule conjI [OF 1 conjI [OF 2 conjI [OF 3 4]]])
qed

lemma two_page_seller_ids: "seller_get_offer_ids two_page_seller = Some (Inr [''A1'', ''A2''])"
  using seller_listing_stops [of two_page_seller "Suc 0"] two_page_seller_run by simp

lemma two_page_market_ids: "market_get_offer_ids two_page_market = Some (Inr [''A1'', ''A2''])"
  using market_listing_stops [of two_page_market "Suc 0"] two_page_market_run by simp

lemma example_seller_stocks_two:
  "seller_create_stocks example_watches [''A1'', ''A2'']
     = Inr ([\<lparr>offer_id = ''A1'', stock = 100\<rparr>, \<lparr>offer_id = ''A2'', stock = 0\<rparr>], [])"
  by (simp add: seller_create_stocks_def example_watches_def normalize_quantity_def)

lemma example_market_stocks_two:
  "market_create_stocks ''2023-07-09T17:37:34Z'' example_watches [''A1'', ''A2''] ''104564''
     = Inr ([market_stock_dict ''2023-07-09T17:37:34Z'' ''104564'' ''A1'' 100,
             market_stock_dict ''2023-07-09T17:37:34Z'' ''104564'' ''A2'' 0], [])"
  by (simp add: market_create_stocks_def example_watches_def normalize_quantity_def)

theorem upload_stocks_returns_nonzero_and_all_witness:
  "seller_upload_stocks two_page_seller accepting example_watches
     = Some (Inr ([\<lparr>offer_id = ''A1'', stock = 100\<rparr>],
                  [\<lparr>offer_id = ''A1'', stock = 100\<rparr>, \<lparr>offer_id = ''A2'', stock = 0\<rparr>]))
   \<and> market_upload_stocks two_page_market accepting ''2023-07-09T17:37:34Z'' example_watches ''104564''
     = Some (Inr ([market_stock_dict ''2023-07-09T17:37:34Z'' ''104564'' ''A1'' 100],
                  [market_stock_dict ''2023-07-09T17:37:34Z'' ''104564'' ''A1'' 100,
                   market_stock_dict ''2023-07-09T17:37:34Z'' ''104564'' ''A2'' 0]))
   \<and> seller_get_offer_ids two_page_seller = Some (Inr [''A1'', ''A2''])
   \<and> market_get_offer_ids two_page_market = Some (Inr [''A1'', ''A2''])"
proof -
  have a: "\<forall>k c. (accepting :: nat \<Rightarrow> seller_stock list \<Rightarrow> error option) k c = None"
    by (simp add: accepting_def)
  have b: "\<forall>k c. (accepting :: nat \<Rightarrow> market_stock list \<Rightarrow> error option) k c = None"
    by (simp add: accepting_def)
  note t = upload_stocks_returns_nonzero_and_all
         [where srv = two_page_seller and upd = accepting and ws = example_watches
            and ids = "[''A1'', ''A2'']" and ids' = "[]"
            and st = "[\<lparr>offer_id = ''A1'', stock = 100\<rparr>, \<lparr>offer_id = ''A2'', stock = 0\<rparr>]"
            and msrv = two_page_market and mupd = accepting and date = "''2023-07-09T17:37:34Z''"
            and wh = "''104564''" and mids = "[''A1'', ''A2'']" and mids' = "[]"
            and mst = "[market_stock_dict ''2023-07-09T17:37:34Z'' ''104564'' ''A1'' 100,
                        market_stock_dict ''2023-07-09T17:37:34Z'' ''104564'' ''A2'' 0]"
            and not_empty = "[\<lparr>offer_id = ''A1'', stock = 100\<rparr>]"
            and stocks = "[\<lparr>offer_id = ''A1'', stock = 100\<rparr>, \<lparr>offer_id = ''A2'', stock = 0\<rparr>]"
            and mnot_empty = "[market_stock_dict ''2023-07-09T17:37:34Z'' ''104564'' ''A1'' 100]"
            and mstocks = "[market_stock_dict ''2023-07-09T17:37:34Z'' ''104564'' ''A1'' 100,
                        market_stock_dict ''2023-07-09T17:37:34Z'' ''104564'' ''A2'' 0]"]
  from t two_page_seller_ids example_seller_stocks_two a
  have 1: "seller_upload_stocks two_page_seller accepting example_watches
     = Some (Inr (filter (\<lambda>s. stock s \<noteq> 0)
                    [\<lparr>offer_id = ''A1'', stock = 100\<rparr>, \<lparr>offer_id = ''A2'', stock = 0\<rparr>],
                  [\<lparr>offer_id = ''A1'', stock = 100\<rparr>, \<lparr>offer_id = ''A2'', stock = 0\<rparr>]))"
    by blast
  from t two_page_market_ids example_market_stocks_two b
  have 2: "market_upload_stocks two_page_market accepting ''2023-07-09T17:37:34Z'' example_watches ''104564''
     = Some (Inr (filter (\<lambda>s. map item_count (items s) \<noteq> [0])
                   [market_stock_dict ''2023-07-09T17:37:34Z'' ''104564'' ''A1'' 100,
                    market_stock_dict ''2023-07-09T17:37:34Z'' ''104564'' ''A2'' 0],
                  [market_stock_dict ''2023-07-09T17:37:34Z'' ''104564'' ''A1'' 100,
                   market_stock_dict ''2023-07-09T17:37:34Z'' ''104564'' ''A2'' 0]))"
    by blast
  have 3: "filter (\<lambda>s. map item_count (items s) \<noteq> [0])
                   [market_stock_dict ''2023-07-09T17:37:34Z'' ''104564'' ''A1'' 100,
                    market_stock_dict ''2023-07-09T17:37:34Z'' ''104564'' ''A2'' 0]
           = [market_stock_dict ''2023-07-09T17:37:34Z'' ''104564'' ''A1'' 100]"
    by (simp add: market_stock_dict_def)
  from 1 2 3 two_page_seller_ids two_page_market_ids show ?thesis by simp
qed

end
